theory Spec2Isabelle
  imports Main "HOL-Library.AList"
begin

section \<open>Values, tables and errors\<close>

text \<open>
  A Python \<open>str\<close> is a sequence of Unicode code points, so text is a list of code
  points here; \<open>str\<close> writes an ASCII literal of the source as such a list.
\<close>

type_synonym pystr = "nat list"

definition str :: "string \<Rightarrow> pystr" where
  "str s = map of_char s"

text \<open>
  A spreadsheet cell as pandas hands it over in an object column: missing (\<open>NaN\<close>),
  a number, or text. Floating-point cells other than \<open>NaN\<close> are not modelled.
\<close>

datatype cell = NaN | Num int | Str pystr

text \<open>
  A \<open>DataFrame\<close>: the column labels, and the rows in positional order, each holding
  one cell per column. The row index is not modelled: every use in the notebook is
  positional (\<open>reset_index(drop = True)\<close>, \<open>ignore_index = True\<close>).
\<close>

record frame =
  columns :: "pystr list"
  rows :: "cell list list"

definition DataFrame :: frame where
  "DataFrame = \<lparr>columns = [], rows = []\<rparr>"

definition rectangular :: "frame \<Rightarrow> bool" where
  "rectangular df = list_all (\<lambda>r. length r = length (columns df)) (rows df)"

text \<open>
  The exceptions the notebook's calls raise. \<open>Unmodelled\<close> marks the inputs on which
  a column label is repeated where pandas would have to resolve it (label lookup of the
  region column, row-wise concatenation): what pandas does there is outside this model.
\<close>

datatype error =
  IndexError | TypeError | KeyError | ValueError | AttributeError | MergeError | Unmodelled

text \<open>The cell of row \<open>r\<close> under label \<open>c\<close>; \<open>NaN\<close> where the row has no such column
  (what reindexing fills in).\<close>

definition cell_at :: "pystr list \<Rightarrow> cell list \<Rightarrow> pystr \<Rightarrow> cell" where
  "cell_at cols r c = (case map_of (zip cols r) c of Some v \<Rightarrow> v | None \<Rightarrow> NaN)"

definition reindex :: "pystr list \<Rightarrow> pystr list \<Rightarrow> cell list \<Rightarrow> cell list" where
  "reindex old new r = map (cell_at old r) new"

section \<open>load_sheet\<close>

text \<open>
  The characters the pattern \<open>\s\<close> matches on a \<open>str\<close>, by code point: ASCII
  whitespace (\<open>U+0009\<close> to \<open>U+000D\<close>, \<open>U+001C\<close> to \<open>U+0020\<close>) and the other
  Unicode whitespace characters (\<open>U+0085\<close>, \<open>U+00A0\<close>, \<open>U+1680\<close>, \<open>U+2000\<close>
  to \<open>U+200A\<close>, \<open>U+2028\<close>, \<open>U+2029\<close>, \<open>U+202F\<close>, \<open>U+205F\<close>, \<open>U+3000\<close>).
\<close>

definition is_space :: "nat \<Rightarrow> bool" where
  "is_space c \<longleftrightarrow>
     (9 \<le> c \<and> c \<le> 13) \<or> (28 \<le> c \<and> c \<le> 32) \<or> c = 133 \<or> c = 160 \<or> c = 5760 \<or>
     (8192 \<le> c \<and> c \<le> 8202) \<or> c = 8232 \<or> c = 8233 \<or> c = 8239 \<or> c = 8287 \<or> c = 12288"

text \<open>
  \<open>re.sub( r'\s+', ' ', colname )\<close>: the scan goes left to right; where the greedy
  pattern matches, the whole match is replaced by one space (code point 32) and the
  scan resumes behind it; any other character is copied.
\<close>

function re_sub :: "pystr \<Rightarrow> pystr" where
  "re_sub [] = []"
| "re_sub (c # cs) =
     (if is_space c then 32 # re_sub (dropWhile is_space cs) else c # re_sub cs)"
  by pat_completeness auto
termination
  by (relation "measure length") (auto simp: less_Suc_eq_le length_dropWhile_le)

text \<open>One element of the list comprehension of line 94: \<open>re.sub\<close> raises
  \<open>TypeError\<close> on a value that is not text.\<close>

fun colname_of :: "cell \<Rightarrow> error + pystr" where
  "colname_of (Str s) = Inr (re_sub s)"
| "colname_of _ = Inl TypeError"

fun colnames_of :: "cell list \<Rightarrow> error + pystr list" where
  "colnames_of [] = Inr []"
| "colnames_of (x # xs) =
     (case colname_of x of
        Inl e \<Rightarrow> Inl e
      | Inr n \<Rightarrow> (case colnames_of xs of Inl e \<Rightarrow> Inl e | Inr ns \<Rightarrow> Inr (n # ns)))"

text \<open>
  \<open>load_sheet\<close>, on the table \<open>pd.read_excel\<close> returned (its \<open>columns\<close> are the
  spreadsheet row pandas took as the header, its \<open>rows\<close> everything below).
  \<open>sheet.iloc[0]\<close> raises \<open>IndexError\<close> on a table without rows; assigning
  \<open>sheet.columns\<close> raises \<open>ValueError\<close> on a length mismatch;
  \<open>sheet['County Name']\<close> raises \<open>KeyError\<close> when no column has that label.
\<close>

definition load_sheet :: "frame \<Rightarrow> error + frame" where
  "load_sheet sheet =
     (case rows sheet of
        [] \<Rightarrow> Inl IndexError
      | r0 # _ \<Rightarrow>
          (case colnames_of r0 of
             Inl e \<Rightarrow> Inl e
           | Inr cols \<Rightarrow>
               if length cols \<noteq> length (columns sheet) then Inl ValueError
               else if str ''County Name'' \<notin> set cols then Inl KeyError
               else if count_list cols (str ''County Name'') \<noteq> 1 then Inl Unmodelled
               else Inr \<lparr>columns = cols,
                         rows = filter (\<lambda>r. cell_at cols r (str ''County Name'') =
                                              Str (str ''San Francisco''))
                                  (rows sheet)\<rparr>))"

section \<open>The aggregation loop\<close>

definition sheet_names :: "pystr list" where
  "sheet_names = [str ''LEA-Level CALPADS UPC Data'', str ''School-Level CALPADS UPC Data'']"

definition school_data_cols :: "(pystr \<times> pystr) list" where
  "school_data_cols =
     [(str ''School Code'', str ''school_code''),
      (str ''School Name'', str ''school_name''),
      (str ''School Type'', str ''school_type''),
      (str ''Low Grade'', str ''grade_low''),
      (str ''High Grade'', str ''grade_high'')]"

definition calpads_data_cols :: "(pystr \<times> pystr) list" where
  "calpads_data_cols =
     [(str ''School Code'', str ''school_code''),
      (str ''Academic Year'', str ''academic_year''),
      (str ''Total Enrollment'', str ''enrollment''),
      (str ''Free & Reduced Meal Program'', str ''frpm_count''),
      (str ''Foster'', str ''foster_count''),
      (str ''Tribal Foster Youth'', str ''foster_tribal_count''),
      (str ''Homeless'', str ''homeless_count''),
      (str ''Migrant Program'', str ''migrant_program_count''),
      (str ''Direct Certification'', str ''direct_certification_count''),
      (str ''Unduplicated FRPM Eligible Count'', str ''frpm_eligible_count''),
      (str ''English Learner (EL)'', str ''english_learned_count''),
      (str ''CALPADS Unduplicated Pupil Count (UPC)'', str ''unduplicated_count'')]"

text \<open>
  \<open>df[[l1, l2, ...]]\<close>: the columns carrying the listed labels, in the order of the
  list (every column of a repeated label); \<open>KeyError\<close> when a listed label is not a
  column.
\<close>

definition getitem :: "frame \<Rightarrow> pystr list \<Rightarrow> error + frame" where
  "getitem df labels =
     (if \<exists>l \<in> set labels. l \<notin> set (columns df) then Inl KeyError
      else Inr \<lparr>columns = concat (map (\<lambda>l. filter (\<lambda>c. c = l) (columns df)) labels),
                rows = map (\<lambda>r. concat (map (\<lambda>l. map snd (filter (\<lambda>(c, v). c = l)
                                                             (zip (columns df) r))) labels))
                         (rows df)\<rparr>)"

text \<open>\<open>df.rename( columns = m )\<close>: a label that is a key of \<open>m\<close> is replaced, any
  other is kept.\<close>

definition rename :: "(pystr \<times> pystr) list \<Rightarrow> frame \<Rightarrow> frame" where
  "rename m df =
     df\<lparr>columns := map (\<lambda>c. case map_of m c of Some c' \<Rightarrow> c' | None \<Rightarrow> c) (columns df)\<rparr>"

text \<open>Lines 110 and 111:
  \<open>sheet[[ col for col in m.keys() if col in sheet ]].rename( columns = m )\<close>.\<close>

definition project :: "(pystr \<times> pystr) list \<Rightarrow> frame \<Rightarrow> error + frame" where
  "project m sheet =
     (case getitem sheet (filter (\<lambda>col. col \<in> set (columns sheet)) (map fst m)) of
        Inl e \<Rightarrow> Inl e
      | Inr d \<Rightarrow> Inr (rename m d))"

text \<open>
  \<open>pd.concat( [a, b], axis = 0, ignore_index = True )\<close> on tables whose labels are not
  repeated: the columns are those of \<open>a\<close> followed by the new ones of \<open>b\<close>, the rows
  of \<open>a\<close> are followed by the rows of \<open>b\<close>, and a cell a table has no column for is
  \<open>NaN\<close>.
\<close>

definition pd_concat :: "frame \<Rightarrow> frame \<Rightarrow> frame" where
  "pd_concat a b =
     (let cols = columns a @ filter (\<lambda>c. c \<notin> set (columns a)) (columns b)
      in \<lparr>columns = cols,
          rows = map (reindex (columns a) cols) (rows a) @
                 map (reindex (columns b) cols) (rows b)\<rparr>)"

text \<open>
  \<open>df.drop_duplicates()\<close>: of the rows equal on every column the first is kept
  (missing cells compare equal to each other); a table with no row or no column is
  returned as it is.
\<close>

fun keep_first :: "'a list \<Rightarrow> 'a list" where
  "keep_first [] = []"
| "keep_first (x # xs) = x # keep_first (filter (\<lambda>y. y \<noteq> x) xs)"

definition drop_duplicates :: "frame \<Rightarrow> frame" where
  "drop_duplicates df =
     (if columns df = [] \<or> rows df = [] then df else df\<lparr>rows := keep_first (rows df)\<rparr>)"

text \<open>\<open>df.assign( k = v )\<close> with a scalar \<open>v\<close>: the column \<open>k\<close> is overwritten when
  the table has it and appended otherwise.\<close>

definition assign :: "pystr \<Rightarrow> cell \<Rightarrow> frame \<Rightarrow> frame" where
  "assign k v df =
     (if k \<in> set (columns df)
      then df\<lparr>rows := map (\<lambda>r. map (\<lambda>(c, x). if c = k then v else x) (zip (columns df) r))
                          (rows df)\<rparr>
      else \<lparr>columns = columns df @ [k], rows = map (\<lambda>r. r @ [v]) (rows df)\<rparr>)"

text \<open>
  \<open>left.merge( right )\<close> with pandas' defaults: an inner join on the labels the two
  tables share (\<open>MergeError\<close> when they share none), in the order of the left rows,
  each paired with the right rows of equal key (missing keys match each other).
\<close>

definition pd_merge :: "frame \<Rightarrow> frame \<Rightarrow> error + frame" where
  "pd_merge left right =
     (let on = filter (\<lambda>c. c \<in> set (columns right)) (columns left);
          other = filter (\<lambda>c. c \<notin> set on) (columns right)
      in if on = [] then Inl MergeError
         else Inr \<lparr>columns = columns left @ other,
                   rows = concat (map (\<lambda>l. map (\<lambda>r. l @ reindex (columns right) other r)
                                             (filter (\<lambda>r. reindex (columns right) on r =
                                                           reindex (columns left) on l)
                                                (rows right)))
                                   (rows left))\<rparr>)"

text \<open>The two running tables of the loop.\<close>

record tables =
  all_school_data :: frame
  all_calpads_data :: frame

text \<open>
  The body of the inner loop (lines 108 to 129) on the table read for \<open>sheet_name\<close>.
\<close>

definition process_sheet :: "tables \<Rightarrow> pystr \<Rightarrow> frame \<Rightarrow> error + tables" where
  "process_sheet acc sheet_name raw =
     (case load_sheet raw of
        Inl e \<Rightarrow> Inl e
      | Inr sheet \<Rightarrow>
          (case project school_data_cols sheet of
             Inl e \<Rightarrow> Inl e
           | Inr school_data \<Rightarrow>
               (case project calpads_data_cols sheet of
                  Inl e \<Rightarrow> Inl e
                | Inr calpads_data \<Rightarrow>
                    if \<not> distinct (columns school_data) \<or> \<not> distinct (columns calpads_data)
                    then Inl Unmodelled
                    else Inr \<lparr>all_school_data =
                                drop_duplicates (pd_concat (all_school_data acc) school_data),
                              all_calpads_data =
                                pd_concat (all_calpads_data acc)
                                  (assign (str ''source_sheet'') (Str sheet_name)
                                     calpads_data)\<rparr>)))"

text \<open>
  A workbook file: its sheets by name. \<open>pd.read_excel\<close> raises \<open>ValueError\<close> for a
  sheet the workbook does not have.
\<close>

type_synonym workbook = "(pystr \<times> frame) list"

definition read_excel :: "workbook \<Rightarrow> pystr \<Rightarrow> error + frame" where
  "read_excel wb sheet_name =
     (case map_of wb sheet_name of None \<Rightarrow> Inl ValueError | Some raw \<Rightarrow> Inr raw)"

fun sheets_loop :: "workbook \<Rightarrow> pystr list \<Rightarrow> tables \<Rightarrow> error + tables" where
  "sheets_loop wb [] acc = Inr acc"
| "sheets_loop wb (sheet_name # names) acc =
     (case read_excel wb sheet_name of
        Inl e \<Rightarrow> Inl e
      | Inr raw \<Rightarrow>
          (case process_sheet acc sheet_name raw of
             Inl e \<Rightarrow> Inl e
           | Inr acc' \<Rightarrow> sheets_loop wb names acc'))"

fun files_loop :: "workbook list \<Rightarrow> tables \<Rightarrow> error + tables" where
  "files_loop [] acc = Inr acc"
| "files_loop (wb # wbs) acc =
     (case sheets_loop wb sheet_names acc of
        Inl e \<Rightarrow> Inl e
      | Inr acc' \<Rightarrow> files_loop wbs acc')"

text \<open>
  Lines 131 and 132. \<open>all_school_data.grade_low\<close> raises \<open>AttributeError\<close> when the
  table has no such column, \<open>all_school_data[['school_code']]\<close> raises \<open>KeyError\<close>.
\<close>

definition post_pass :: "tables \<Rightarrow> error + tables" where
  "post_pass acc =
     (let school = all_school_data acc in
      if str ''grade_low'' \<notin> set (columns school) then Inl AttributeError
      else
        let school' = school\<lparr>rows := filter (\<lambda>r. cell_at (columns school) r (str ''grade_low'')
                                                  \<noteq> NaN) (rows school)\<rparr>
        in case getitem school' [str ''school_code''] of
             Inl e \<Rightarrow> Inl e
           | Inr codes \<Rightarrow>
               (case pd_merge (all_calpads_data acc) (drop_duplicates codes) of
                  Inl e \<Rightarrow> Inl e
                | Inr calpads \<Rightarrow>
                    Inr \<lparr>all_school_data = school', all_calpads_data = calpads\<rparr>))"

text \<open>The notebook's second cell, on the workbooks of the raw directory in listing
  order: the two tables it writes.\<close>

definition aggregate :: "workbook list \<Rightarrow> error + tables" where
  "aggregate files =
     (case files_loop files \<lparr>all_school_data = DataFrame, all_calpads_data = DataFrame\<rparr> of
        Inl e \<Rightarrow> Inl e
      | Inr acc \<Rightarrow> post_pass acc)"

section \<open>Identity reconciler and tax record merger\<close>

text \<open>
  Modelled from the spec: the script that reconciles the identifiers and merges the tax
  filings (\<open>pull_tax_data.py\<close>) is not among the sources, so the data and the two
  operations follow sections 3, 4.1 and 4.2 of the specification. An override record is
  the triple (identifier, source name, canonical name).
\<close>

type_synonym override_record = "pystr \<times> pystr \<times> pystr"

text \<open>
  Modelled from the spec: \<open>reconcile\<close> (section 4.1). The result mapping starts empty;
  each record of the recode table is inserted only if its identifier is in the primary
  set; then each record of the override table is inserted or overwrites,
  unconditionally. The mapping is an association list with overwrite-on-insert.
\<close>

definition reconcile ::
  "pystr set \<Rightarrow> override_record list \<Rightarrow> override_record list \<Rightarrow> (pystr \<times> pystr) list" where
  "reconcile primary_identifiers recode_table override_table =
     foldl (\<lambda>mapping (identifier, source_name, canonical_name).
              AList.update identifier canonical_name mapping)
       (foldl (\<lambda>mapping (identifier, source_name, canonical_name).
                 if identifier \<in> primary_identifiers
                 then AList.update identifier canonical_name mapping
                 else mapping)
          [] recode_table)
       override_table"

text \<open>
  Modelled from the spec: a tax filing row belongs to one identifier and carries its
  filing fields; the merged row has the canonical name as one more attribute, empty
  when the identifier has no mapping.
\<close>

record tax_filing_row =
  ein :: pystr
  filing :: "(pystr \<times> cell) list"

record merged_row = tax_filing_row +
  canonical_name :: "pystr option"

text \<open>
  Modelled from the spec: \<open>merge\<close> (section 4.2). Every row is looked up in the
  canonical mapping by its identifier; the name is attached when found, and the row is
  retained with an empty name otherwise.
\<close>

definition merge :: "tax_filing_row list \<Rightarrow> (pystr \<times> pystr) list \<Rightarrow> merged_row list" where
  "merge tax_rows canonical_mapping =
     map (\<lambda>row. \<lparr>ein = ein row, filing = filing row,
                  canonical_name = map_of canonical_mapping (ein row)\<rparr>)
       tax_rows"

section \<open>Whitespace normalisation, as the specification words it\<close>

text \<open>
  The specification asks that every maximal run of whitespace in a header be replaced
  by a single space. \<open>runs\<close> cuts a text into its maximal runs of whitespace and of
  other characters, \<open>squeeze\<close> replaces a run of whitespace by one space, and
  \<open>normalize_whitespace\<close> puts the runs together again.
\<close>

function runs :: "pystr \<Rightarrow> pystr list" where
  "runs [] = []"
| "runs (c # cs) =
     (c # takeWhile (\<lambda>d. is_space d = is_space c) cs) #
     runs (dropWhile (\<lambda>d. is_space d = is_space c) cs)"
  by pat_completeness auto
termination
  by (relation "measure length") (auto simp: less_Suc_eq_le length_dropWhile_le)

fun squeeze :: "pystr \<Rightarrow> pystr" where
  "squeeze [] = []"
| "squeeze (c # cs) = (if is_space c then [32] else c # cs)"

definition normalize_whitespace :: "pystr \<Rightarrow> pystr" where
  "normalize_whitespace s = concat (map squeeze (runs s))"

section \<open>Notions used to state the properties of the aggregator\<close>

text \<open>
  What holds of the two running tables after every iteration of the loop: the labels of
  each are distinct, the entity table is rectangular, and, once it has a column, its
  rows are distinct.
\<close>

definition tables_ok :: "tables \<Rightarrow> bool" where
  "tables_ok acc \<longleftrightarrow>
     distinct (columns (all_school_data acc)) \<and> rectangular (all_school_data acc) \<and>
     (columns (all_school_data acc) \<noteq> [] \<longrightarrow> distinct (rows (all_school_data acc))) \<and>
     distinct (columns (all_calpads_data acc))"

text \<open>The rows of a table that carry the sheet name \<open>n\<close> in the column
  \<open>source_sheet\<close>.\<close>

definition tagged :: "pystr \<Rightarrow> frame \<Rightarrow> cell list list" where
  "tagged n df = filter (\<lambda>r. cell_at (columns df) r (str ''source_sheet'') = Str n) (rows df)"

text \<open>The number of rows \<open>load_sheet\<close> returns for the sheet \<open>sheet_name\<close> of a
  workbook.\<close>

definition loaded_rows :: "workbook \<Rightarrow> pystr \<Rightarrow> nat" where
  "loaded_rows wb sheet_name =
     (case read_excel wb sheet_name of
        Inl e \<Rightarrow> 0
      | Inr raw \<Rightarrow> (case load_sheet raw of Inl e \<Rightarrow> 0 | Inr sheet \<Rightarrow> length (rows sheet)))"

text \<open>Every sheet \<open>pd.read_excel\<close> can return is rectangular, as every
  \<open>DataFrame\<close> is.\<close>

definition rectangular_files :: "workbook list \<Rightarrow> bool" where
  "rectangular_files files = list_all (list_all (\<lambda>(n, raw). rectangular raw)) files"

section \<open>Example data\<close>

text \<open>
  A sheet as \<open>pd.read_excel\<close> returns it: the labels pandas made up, the in-sheet
  header row (its first label broken over two lines), and four data rows.
\<close>

definition example_sheet :: frame where
  "example_sheet =
     \<lparr>columns = [str ''Unnamed: 0'', str ''Unnamed: 1''],
      rows = [[Str (str ''County'' @ [10, 32] @ str ''Name''), Str (str ''School Code'')],
              [Str (str ''San Francisco''), Num 1],
              [Str (str ''san francisco''), Num 2],
              [Str (str ''Alameda''), Num 3],
              [Str (str ''San Francisco''), Num 4]]\<rparr>"

definition example_loaded :: frame where
  "example_loaded =
     \<lparr>columns = [str ''County Name'', str ''School Code''],
      rows = [[Str (str ''San Francisco''), Num 1], [Str (str ''San Francisco''), Num 4]]\<rparr>"

text \<open>The scenarios of the specification's section 8, and three filing rows.\<close>

definition example_recode :: "override_record list" where
  "example_recode =
     [(str ''11-1111111'', str ''A Pta'', str ''Lincoln ES''),
      (str ''33-3333333'', str ''B Pta'', str ''Grant ES'')]"

definition example_override :: "override_record list" where
  "example_override =
     [(str ''11-1111111'', str ''A Org'', str ''Washington ES''),
      (str ''22-2222222'', str ''C Club'', str ''West Portal ES'')]"

definition example_tax_rows :: "tax_filing_row list" where
  "example_tax_rows =
     [\<lparr>ein = str ''11-1111111'', filing = [(str ''tax_prd_yr'', Num 2021)]\<rparr>,
      \<lparr>ein = str ''99-9999999'', filing = [(str ''tax_prd_yr'', Num 2021)]\<rparr>,
      \<lparr>ein = str ''11-1111111'', filing = [(str ''tax_prd_yr'', Num 2022)]\<rparr>]"

text \<open>
  A workbook with the two sheets. The district-level sheet has no entity column; the
  school-level sheet has one school with a low grade, one without, and one of another
  county. The raw directory of the example holds the workbook twice, so every row
  arrives twice. \<open>example_accumulated\<close> are the running tables after the loop and
  \<open>example_output\<close> the two tables written.
\<close>

definition example_workbook :: workbook where
  "example_workbook =
     [(str ''LEA-Level CALPADS UPC Data'',
       \<lparr>columns = [str ''Unnamed: 0'', str ''Unnamed: 1'', str ''Unnamed: 2''],
        rows = [[Str (str ''Academic Year''), Str (str ''County Name''), Str (str ''Total Enrollment'')],
                [Str (str ''2021-2022''), Str (str ''San Francisco''), Num 50000],
                [Str (str ''2021-2022''), Str (str ''Alameda''), Num 999]]\<rparr>),
      (str ''School-Level CALPADS UPC Data'',
       \<lparr>columns = [str ''Unnamed: 0'', str ''Unnamed: 1'', str ''Unnamed: 2'',
                   str ''Unnamed: 3'', str ''Unnamed: 4''],
        rows = [[Str (str ''Academic Year''), Str (str ''County Name''), Str (str ''School Code''),
                 Str (str ''Low Grade''), Str (str ''Total Enrollment'')],
                [Str (str ''2021-2022''), Str (str ''San Francisco''), Num 101, Str (str ''K''), Num 300],
                [Str (str ''2021-2022''), Str (str ''San Francisco''), Num 102, NaN, Num 10],
                [Str (str ''2021-2022''), Str (str ''Alameda''), Num 900, Str (str ''K''), Num 77]]\<rparr>)]"

text \<open>The district-level sheet of the workbook, on its own.\<close>

definition example_lea_sheet :: frame where
  "example_lea_sheet =
     \<lparr>columns = [str ''Unnamed: 0'', str ''Unnamed: 1'', str ''Unnamed: 2''],
      rows = [[Str (str ''Academic Year''), Str (str ''County Name''), Str (str ''Total Enrollment'')],
              [Str (str ''2021-2022''), Str (str ''San Francisco''), Num 50000],
              [Str (str ''2021-2022''), Str (str ''Alameda''), Num 999]]\<rparr>"

definition example_accumulated :: tables where
  "example_accumulated =
     \<lparr>all_school_data =
        \<lparr>columns = [str ''school_code'', str ''grade_low''],
         rows = [[NaN, NaN], [Num 101, Str (str ''K'')], [Num 102, NaN]]\<rparr>,
      all_calpads_data =
        \<lparr>columns = [str ''academic_year'', str ''enrollment'', str ''source_sheet'',
                    str ''school_code''],
         rows = [[Str (str ''2021-2022''), Num 50000, Str (str ''LEA-Level CALPADS UPC Data''), NaN],
                 [Str (str ''2021-2022''), Num 300, Str (str ''School-Level CALPADS UPC Data''), Num 101],
                 [Str (str ''2021-2022''), Num 10, Str (str ''School-Level CALPADS UPC Data''), Num 102],
                 [Str (str ''2021-2022''), Num 50000, Str (str ''LEA-Level CALPADS UPC Data''), NaN],
                 [Str (str ''2021-2022''), Num 300, Str (str ''School-Level CALPADS UPC Data''), Num 101],
                 [Str (str ''2021-2022''), Num 10, Str (str ''School-Level CALPADS UPC Data''), Num 102]]\<rparr>\<rparr>"

definition example_output :: tables where
  "example_output =
     \<lparr>all_school_data =
        \<lparr>columns = [str ''school_code'', str ''grade_low''],
         rows = [[Num 101, Str (str ''K'')]]\<rparr>,
      all_calpads_data =
        \<lparr>columns = [str ''academic_year'', str ''enrollment'', str ''source_sheet'',
                    str ''school_code''],
         rows = [[Str (str ''2021-2022''), Num 300, Str (str ''School-Level CALPADS UPC Data''), Num 101],
                 [Str (str ''2021-2022''), Num 300, Str (str ''School-Level CALPADS UPC Data''), Num 101]]\<rparr>\<rparr>"


section \<open>Properties of the header normalisation\<close>

lemma concat_runs: "concat (runs s) = s"
  by (induction s rule: runs.induct) simp_all

lemma runs_uniform:
  "run \<in> set (runs s) \<Longrightarrow> run \<noteq> [] \<and> (\<forall>d \<in> set run. is_space d = is_space (hd run))"
proof (induction s rule: runs.induct)
  case 1
  then show ?case by simp
next
  case (2 c cs)
  let ?P = "\<lambda>d. is_space d = is_space c"
  from 2(2) have "run = c # takeWhile ?P cs \<or> run \<in> set (runs (dropWhile ?P cs))"
    by simp
  then show ?case
  proof
    assume run: "run = c # takeWhile ?P cs"
    have t: "?P d" if "d \<in> set (takeWhile ?P cs)" for d
      using set_takeWhileD[OF that] by (rule conjunct2)
    show ?thesis
      unfolding run
    proof (intro conjI ballI)
      show "c # takeWhile ?P cs \<noteq> []" by simp
    next
      fix d
      assume "d \<in> set (c # takeWhile ?P cs)"
      then have "d = c \<or> d \<in> set (takeWhile ?P cs)" by simp
      then show "is_space d = is_space (hd (c # takeWhile ?P cs))"
      proof
        assume "d = c"
        then show ?thesis by simp
      next
        assume "d \<in> set (takeWhile ?P cs)"
        from t[OF this] show ?thesis by simp
      qed
    qed
  next
    assume "run \<in> set (runs (dropWhile ?P cs))"
    then show ?thesis by (rule "2.IH")
  qed
qed

lemma runs_maximal:
  "runs s = pre @ a # b # post \<Longrightarrow> is_space (hd b) \<noteq> is_space (last a)"
proof (induction s arbitrary: pre a b post rule: runs.induct)
  case 1
  then show ?case by simp
next
  case (2 c cs)
  let ?P = "\<lambda>d. is_space d = is_space c"
  show ?case
  proof (cases pre)
    case Nil
    with 2(2) have a: "a = c # takeWhile ?P cs" and r: "runs (dropWhile ?P cs) = b # post"
      by simp_all
    from r obtain e es where d: "dropWhile ?P cs = e # es"
      by (cases "dropWhile ?P cs") auto
    with r have "hd b = e" by auto
    moreover have "\<not> ?P (hd (dropWhile ?P cs))"
      using d hd_dropWhile[of ?P cs] by simp
    with d have "\<not> ?P e" by simp
    moreover have "?P (last a)"
    proof -
      have "last a \<in> set a" using a by simp
      then have "last a = c \<or> last a \<in> set (takeWhile ?P cs)" unfolding a by simp
      then show ?thesis
      proof
        assume "last a = c"
        then show ?thesis by simp
      next
        assume "last a \<in> set (takeWhile ?P cs)"
        from set_takeWhileD[OF this] show ?thesis by (rule conjunct2)
      qed
    qed
    ultimately show ?thesis by simp
  next
    case (Cons p ps)
    with 2(2) have "runs (dropWhile ?P cs) = ps @ a # b # post" by simp
    then show ?thesis by (rule 2(1))
  qed
qed

lemma re_sub_copy: "\<forall>x \<in> set xs. \<not> is_space x \<Longrightarrow> re_sub (xs @ ys) = xs @ re_sub ys"
  by (induction xs) simp_all

lemma re_sub_normalize: "re_sub s = normalize_whitespace s"
proof (induction s rule: runs.induct)
  case 1
  show ?case by (simp add: normalize_whitespace_def)
next
  case (2 c cs)
  show ?case
  proof (cases "is_space c")
    case True
    then have "(\<lambda>d. is_space d = is_space c) = is_space" by auto
    with 2 True show ?thesis by (simp add: normalize_whitespace_def)
  next
    case False
    let ?P = "\<lambda>d. is_space d = is_space c"
    have "re_sub cs = re_sub (takeWhile ?P cs @ dropWhile ?P cs)" by simp
    also have "\<dots> = takeWhile ?P cs @ re_sub (dropWhile ?P cs)"
    proof (rule re_sub_copy, rule ballI)
      fix x
      assume "x \<in> set (takeWhile ?P cs)"
      from set_takeWhileD[OF this] have "is_space x = is_space c" by (rule conjunct2)
      with False show "\<not> is_space x" by simp
    qed
    finally show ?thesis using 2 False by (simp add: normalize_whitespace_def)
  qed
qed

lemma colnames_of_Inr:
  "colnames_of r0 = Inr cols \<Longrightarrow> \<exists>names. r0 = map Str names \<and> cols = map re_sub names"
proof (induction r0 arbitrary: cols)
  case Nil
  then show ?case by simp
next
  case (Cons x xs)
  from Cons.prems obtain s ns where x: "x = Str s" and ns: "colnames_of xs = Inr ns"
    and cols: "cols = re_sub s # ns"
    by (cases x) (auto split: sum.splits)
  from Cons.IH[OF ns] obtain names where "xs = map Str names" "ns = map re_sub names" by blast
  with x cols have "x # xs = map Str (s # names) \<and> cols = map re_sub (s # names)" by simp
  then show ?case by (rule exI)
qed

lemma load_sheet_Inr:
  assumes "load_sheet sheet = Inr out"
  shows "\<exists>names rest. rows sheet = map Str names # rest \<and> columns out = map re_sub names \<and>
           length names = length (columns sheet) \<and>
           count_list (columns out) (str ''County Name'') = 1 \<and>
           rows out = filter (\<lambda>r. cell_at (columns out) r (str ''County Name'') =
                                     Str (str ''San Francisco'')) (rows sheet)"
proof -
  from assms obtain r0 rest where r: "rows sheet = r0 # rest"
    by (cases "rows sheet") (auto simp: load_sheet_def)
  with assms obtain cols where c: "colnames_of r0 = Inr cols"
    by (cases "colnames_of r0") (auto simp: load_sheet_def)
  from colnames_of_Inr[OF c] obtain names where n: "r0 = map Str names" "cols = map re_sub names"
    by blast
  from assms r c have "length cols = length (columns sheet)"
    and "count_list cols (str ''County Name'') = 1"
    and "out = \<lparr>columns = cols,
                 rows = filter (\<lambda>r. cell_at cols r (str ''County Name'') =
                                     Str (str ''San Francisco'')) (rows sheet)\<rparr>"
    by (auto simp: load_sheet_def split: if_splits)
  with r n show ?thesis by auto
qed


lemma header_cell:
  "c \<in> set (map re_sub names) \<Longrightarrow>
   \<exists>s. cell_at (map re_sub names) (map Str names) c = Str s \<and> re_sub s = c"
  by (induction names) (auto simp: cell_at_def)

lemma re_sub_San_Francisco: "re_sub (str ''San Francisco'') \<noteq> str ''County Name''"
  by (simp add: str_def is_space_def)

section \<open>Properties of load_sheet\<close>

lemma example_load: "load_sheet example_sheet = Inr example_loaded"
  by (simp add: load_sheet_def example_sheet_def example_loaded_def str_def is_space_def
      cell_at_def)

text \<open>
  C6: every row \<open>load_sheet\<close> returns has the text \<open>San Francisco\<close> in the column
  labelled \<open>County Name\<close> (equality of code point sequences, hence case-sensitive), and
  every row of the sheet whose cell there is anything else is discarded. The column is
  well determined: exactly one column carries the label.
\<close>

theorem load_sheet_region_filter:
  assumes "load_sheet sheet = Inr out"
  shows "count_list (columns out) (str ''County Name'') = 1 \<and>
         rows out = filter (\<lambda>r. cell_at (columns out) r (str ''County Name'') =
                                 Str (str ''San Francisco'')) (rows sheet) \<and>
         (\<forall>r \<in> set (rows out).
            cell_at (columns out) r (str ''County Name'') = Str (str ''San Francisco'')) \<and>
         (\<forall>r \<in> set (rows sheet).
            cell_at (columns out) r (str ''County Name'') \<noteq> Str (str ''San Francisco'') \<longrightarrow>
            r \<notin> set (rows out))"
proof -
  define P where
    "P = (\<lambda>r. cell_at (columns out) r (str ''County Name'') = Str (str ''San Francisco''))"
  from load_sheet_Inr[OF assms]
  have c: "count_list (columns out) (str ''County Name'') = 1"
    and r: "rows out = filter P (rows sheet)"
    unfolding P_def by blast+
  have "\<forall>r \<in> set (rows out). P r"
    unfolding r by simp
  moreover have "\<forall>r \<in> set (rows sheet). \<not> P r \<longrightarrow> r \<notin> set (rows out)"
    unfolding r by simp
  ultimately show ?thesis using c r unfolding P_def by blast
qed

theorem load_sheet_region_filter_witness:
  "load_sheet example_sheet = Inr example_loaded \<and>
   [Str (str ''san francisco''), Num 2] \<in> set (rows example_sheet) \<and>
   [Str (str ''san francisco''), Num 2] \<notin> set (rows example_loaded) \<and>
   cell_at (columns example_loaded) [Str (str ''San Francisco''), Num 4] (str ''County Name'') =
     Str (str ''San Francisco'')"
proof -
  have m: "[Str (str ''san francisco''), Num 2] \<in> set (rows example_sheet)"
    and d: "cell_at (columns example_loaded) [Str (str ''san francisco''), Num 2]
              (str ''County Name'') \<noteq> Str (str ''San Francisco'')"
    and k: "[Str (str ''San Francisco''), Num 4] \<in> set (rows example_loaded)"
    by (simp_all add: example_sheet_def example_loaded_def cell_at_def str_def)
  from load_sheet_region_filter[OF example_load] m d k example_load show ?thesis
    by blast
qed

text \<open>
  C7: \<open>load_sheet\<close> takes the column names from the first row below the one pandas
  read as the header: the sheet has such a row, every cell of it is text, and the
  returned labels are, position by position, these texts with every maximal run of
  whitespace replaced by a single space.
\<close>

theorem load_sheet_header:
  assumes "load_sheet sheet = Inr out"
  shows "rows sheet \<noteq> [] \<and>
         list_all2 (\<lambda>x n. \<exists>s. x = Str s \<and> n = normalize_whitespace s)
           (hd (rows sheet)) (columns out)"
proof -
  from load_sheet_Inr[OF assms] obtain names rest
    where r: "rows sheet = map Str names # rest" and c: "columns out = map re_sub names"
    by blast
  have "list_all2 (\<lambda>x n. \<exists>s. x = Str s \<and> n = normalize_whitespace s)
          (map Str names) (map re_sub names)"
    by (simp add: list_all2_map1 list_all2_map2 re_sub_normalize list_all2_same)
  with r c show ?thesis by simp
qed

theorem load_sheet_header_witness:
  "load_sheet example_sheet = Inr example_loaded \<and>
   rows example_sheet \<noteq> [] \<and>
   hd (rows example_sheet) =
     [Str (str ''County'' @ [10, 32] @ str ''Name''), Str (str ''School Code'')] \<and>
   columns example_loaded =
     [normalize_whitespace (str ''County'' @ [10, 32] @ str ''Name''),
      normalize_whitespace (str ''School Code'')] \<and>
   columns example_loaded = [str ''County Name'', str ''School Code'']"
proof -
  have h: "hd (rows example_sheet) =
     [Str (str ''County'' @ [10, 32] @ str ''Name''), Str (str ''School Code'')]"
    by (simp add: example_sheet_def)
  have c: "columns example_loaded = [str ''County Name'', str ''School Code'']"
    by (simp add: example_loaded_def)
  from load_sheet_header[OF example_load] have "rows example_sheet \<noteq> []"
    and "columns example_loaded =
     [normalize_whitespace (str ''County'' @ [10, 32] @ str ''Name''),
      normalize_whitespace (str ''School Code'')]"
    by (simp_all add: example_sheet_def list_all2_Cons1)
  with example_load h c show ?thesis by blast
qed

text \<open>
  C10: \<open>load_sheet\<close> does not remove the row the labels came from: the region filter
  decides for it as for any other row of the sheet. The row never passes the filter,
  since its cell in the region column is a text that normalises to the label
  \<open>County Name\<close>, which the text \<open>San Francisco\<close> does not.
\<close>

theorem load_sheet_keeps_header_row:
  assumes "load_sheet sheet = Inr out"
  shows "rows sheet \<noteq> [] \<and>
         (\<forall>r \<in> set (rows sheet).
            (r \<in> set (rows out)) =
            (cell_at (columns out) r (str ''County Name'') = Str (str ''San Francisco''))) \<and>
         (\<exists>s. cell_at (columns out) (hd (rows sheet)) (str ''County Name'') = Str s \<and>
              re_sub s = str ''County Name'') \<and>
         hd (rows sheet) \<notin> set (rows out)"
proof -
  from load_sheet_Inr[OF assms] obtain names rest
    where r: "rows sheet = map Str names # rest" and c: "columns out = map re_sub names"
      and n: "count_list (columns out) (str ''County Name'') = 1"
      and f: "rows out = filter (\<lambda>r. cell_at (columns out) r (str ''County Name'') =
                                       Str (str ''San Francisco'')) (rows sheet)"
    by blast
  from n have "str ''County Name'' \<in> set (map re_sub names)"
    unfolding c by (metis count_list_0_iff zero_neq_one)
  from header_cell[OF this] obtain s
    where s: "cell_at (columns out) (hd (rows sheet)) (str ''County Name'') = Str s"
      and s': "re_sub s = str ''County Name''"
    using r c by auto
  define P where
    "P = (\<lambda>r. cell_at (columns out) r (str ''County Name'') = Str (str ''San Francisco''))"
  from f have f': "rows out = filter P (rows sheet)" unfolding P_def .
  from s' re_sub_San_Francisco have "s \<noteq> str ''San Francisco''" by auto
  with s have "\<not> P (hd (rows sheet))" unfolding P_def by simp
  then have h: "hd (rows sheet) \<notin> set (rows out)" unfolding f' by simp
  have "\<forall>r \<in> set (rows sheet). (r \<in> set (rows out)) = P r"
    unfolding f' by simp
  then have a: "\<forall>r \<in> set (rows sheet).
            (r \<in> set (rows out)) =
            (cell_at (columns out) r (str ''County Name'') = Str (str ''San Francisco''))"
    unfolding P_def .
  from r have "rows sheet \<noteq> []" by simp
  with a h s s' show ?thesis by blast
qed

theorem load_sheet_keeps_header_row_witness:
  "hd (rows example_sheet) = [Str (str ''County'' @ [10, 32] @ str ''Name''), Str (str ''School Code'')] \<and>
   hd (rows example_sheet) \<notin> set (rows example_loaded) \<and>
   [Str (str ''San Francisco''), Num 4] \<in> set (rows example_loaded)"
proof -
  have "[Str (str ''San Francisco''), Num 4] \<in> set (rows example_sheet)"
    and "cell_at (columns example_loaded) [Str (str ''San Francisco''), Num 4]
           (str ''County Name'') = Str (str ''San Francisco'')"
    and "hd (rows example_sheet) =
           [Str (str ''County'' @ [10, 32] @ str ''Name''), Str (str ''School Code'')]"
    by (simp_all add: example_sheet_def example_loaded_def cell_at_def str_def)
  with load_sheet_keeps_header_row[OF example_load] show ?thesis by blast
qed


section \<open>Properties of the reconciler and the merger\<close>

lemma count_list_distinct: "distinct xs \<Longrightarrow> x \<in> set xs \<Longrightarrow> count_list xs x = 1"
  by (induction xs) auto

lemma foldl_recode_keys:
  "fst ` set (foldl (\<lambda>mapping (identifier, source_name, canonical_name).
                 if identifier \<in> ps then AList.update identifier canonical_name mapping
                 else mapping) m rs) = fst ` set m \<union> (fst ` set rs \<inter> ps)"
  by (induction rs arbitrary: m) (auto simp: AList.dom_update case_prod_beta)

lemma foldl_recode_distinct:
  "distinct (map fst m) \<Longrightarrow>
   distinct (map fst (foldl (\<lambda>mapping (identifier, source_name, canonical_name).
                 if identifier \<in> ps then AList.update identifier canonical_name mapping
                 else mapping) m rs))"
  by (induction rs arbitrary: m) (simp_all add: AList.distinct_update case_prod_beta)

lemma foldl_override_keys:
  "fst ` set (foldl (\<lambda>mapping (identifier, source_name, canonical_name).
              AList.update identifier canonical_name mapping) m tbl) = fst ` set m \<union> fst ` set tbl"
  by (induction tbl arbitrary: m) (auto simp: AList.dom_update case_prod_beta)

lemma foldl_override_distinct:
  "distinct (map fst m) \<Longrightarrow>
   distinct (map fst (foldl (\<lambda>mapping (identifier, source_name, canonical_name).
              AList.update identifier canonical_name mapping) m tbl))"
  by (induction tbl arbitrary: m) (simp_all add: AList.distinct_update case_prod_beta)

lemma foldl_override_map_of:
  "map_of (foldl (\<lambda>mapping (identifier, source_name, canonical_name).
              AList.update identifier canonical_name mapping) m tbl) i =
   (if i \<in> fst ` set tbl then Some (snd (snd (last (filter (\<lambda>r. fst r = i) tbl))))
    else map_of m i)"
proof (induction tbl rule: rev_induct)
  case Nil
  show ?case by simp
next
  case (snoc r tbl)
  obtain k s n where r: "r = (k, s, n)" by (cases r)
  show ?case
  proof (cases "k = i")
    case True
    then show ?thesis by (simp add: r AList.update_conv')
  next
    case False
    then show ?thesis using snoc by (simp add: r AList.update_conv')
  qed
qed

lemma reconcile_keys: "fst ` set (reconcile ps rs os) = (fst ` set rs \<inter> ps) \<union> fst ` set os"
  unfolding reconcile_def by (simp add: foldl_override_keys foldl_recode_keys)

lemma reconcile_distinct: "distinct (map fst (reconcile ps rs os))"
  unfolding reconcile_def by (intro foldl_override_distinct foldl_recode_distinct) simp

text \<open>
  C1: every identifier of the override table occurs exactly once among the keys of
  \<open>reconcile\<close>'s mapping, bound to the canonical name the override table gives it
  (the name of the table's last record for the identifier, should the table repeat
  it), whatever the primary set and the recode table hold.
\<close>

theorem reconcile_override_wins:
  assumes "i \<in> fst ` set os"
  shows "count_list (map fst (reconcile ps rs os)) i = 1 \<and>
         map_of (reconcile ps rs os) i = Some (snd (snd (last (filter (\<lambda>r. fst r = i) os))))"
proof -
  from assms have "i \<in> set (map fst (reconcile ps rs os))"
    using reconcile_keys[of ps rs os] by simp
  with reconcile_distinct[of ps rs os] have "count_list (map fst (reconcile ps rs os)) i = 1"
    by (simp add: count_list_distinct)
  moreover have "map_of (reconcile ps rs os) i = Some (snd (snd (last (filter (\<lambda>r. fst r = i) os))))"
    unfolding reconcile_def using assms by (simp add: foldl_override_map_of)
  ultimately show ?thesis ..
qed

theorem reconcile_override_wins_witness:
  "count_list (map fst (reconcile {str ''11-1111111''} example_recode example_override))
     (str ''11-1111111'') = 1 \<and>
   map_of (reconcile {str ''11-1111111''} example_recode example_override) (str ''11-1111111'') =
     Some (str ''Washington ES'') \<and>
   map_of (reconcile {str ''11-1111111''} example_recode example_override) (str ''22-2222222'') =
     Some (str ''West Portal ES'')"
proof -
  have 1: "str ''11-1111111'' \<in> fst ` set example_override"
    and 2: "str ''22-2222222'' \<in> fst ` set example_override"
    by (simp_all add: example_override_def str_def)
  show ?thesis
    using reconcile_override_wins[OF 1, of "{str ''11-1111111''}" example_recode]
      reconcile_override_wins[OF 2, of "{str ''11-1111111''}" example_recode]
    by (simp add: example_override_def str_def)
qed

text \<open>
  C2: \<open>merge\<close> returns as many rows as it was given, in the same order and with the
  same identifiers and filing fields, for any mapping; a row whose identifier the
  mapping does not have is retained, its canonical name empty.
\<close>

theorem merge_keeps_rows:
  "length (merge tax_rows m) = length tax_rows \<and>
   map ein (merge tax_rows m) = map ein tax_rows \<and>
   map filing (merge tax_rows m) = map filing tax_rows \<and>
   map canonical_name (merge tax_rows m) = map (\<lambda>row. map_of m (ein row)) tax_rows \<and>
   (\<forall>k < length tax_rows. ein (tax_rows ! k) \<notin> fst ` set m \<longrightarrow>
      ein (merge tax_rows m ! k) = ein (tax_rows ! k) \<and>
      filing (merge tax_rows m ! k) = filing (tax_rows ! k) \<and>
      canonical_name (merge tax_rows m ! k) = None)"
  by (simp add: merge_def comp_def map_of_eq_None_iff)


theorem merge_keeps_rows_witness:
  "length (merge example_tax_rows [(str ''11-1111111'', str ''Lincoln ES'')]) = 3 \<and>
   canonical_name (merge example_tax_rows [(str ''11-1111111'', str ''Lincoln ES'')] ! 1) = None \<and>
   ein (merge example_tax_rows [(str ''11-1111111'', str ''Lincoln ES'')] ! 1) = str ''99-9999999''"
proof -
  have 1: "(1::nat) < length example_tax_rows"
    and 2: "ein (example_tax_rows ! 1) \<notin> fst ` set [(str ''11-1111111'', str ''Lincoln ES'')]"
    and 3: "ein (example_tax_rows ! 1) = str ''99-9999999''"
    and 4: "length example_tax_rows = 3"
    by (simp_all add: example_tax_rows_def str_def)
  from merge_keeps_rows[of example_tax_rows "[(str ''11-1111111'', str ''Lincoln ES'')]"] 1 2 3 4
  show ?thesis by metis
qed

text \<open>
  C3: an identifier of the recode table that is not in the primary set and not in the
  override table is not a key of \<open>reconcile\<close>'s mapping.
\<close>

theorem reconcile_recode_needs_primary:
  assumes "i \<in> fst ` set rs" and "i \<notin> ps" and "i \<notin> fst ` set os"
  shows "i \<notin> fst ` set (reconcile ps rs os) \<and> map_of (reconcile ps rs os) i = None"
proof -
  from assms have "i \<notin> fst ` set (reconcile ps rs os)"
    unfolding reconcile_keys by blast
  then show ?thesis by (simp add: map_of_eq_None_iff)
qed

theorem reconcile_recode_needs_primary_witness:
  "str ''33-3333333'' \<in> fst ` set example_recode \<and>
   map_of (reconcile {str ''11-1111111''} example_recode []) (str ''33-3333333'') = None \<and>
   map_of (reconcile {str ''11-1111111''} example_recode []) (str ''11-1111111'') =
     Some (str ''Lincoln ES'')"
proof -
  have 1: "str ''33-3333333'' \<in> fst ` set example_recode"
    and 2: "str ''33-3333333'' \<notin> {str ''11-1111111''}"
    and 3: "str ''33-3333333'' \<notin> fst ` set ([] :: override_record list)"
    and 4: "map_of (reconcile {str ''11-1111111''} example_recode []) (str ''11-1111111'') =
              Some (str ''Lincoln ES'')"
    by (simp_all add: example_recode_def reconcile_def str_def)
  from reconcile_recode_needs_primary[OF 1 2 3] 1 4 show ?thesis by blast
qed


section \<open>Properties of the table operations\<close>

lemma cell_at_notin: "c \<notin> set cols \<Longrightarrow> cell_at cols r c = NaN"
proof -
  assume "c \<notin> set cols"
  then have "c \<notin> fst ` set (zip cols r)"
    by (auto dest: set_zip_leftD)
  then have "map_of (zip cols r) c = None"
    by (simp add: map_of_eq_None_iff)
  then show ?thesis by (simp add: cell_at_def)
qed

lemma cell_at_reindex:
  "cell_at new (reindex old new r) c = (if c \<in> set new then cell_at old r c else NaN)"
  by (simp add: reindex_def cell_at_def[of new] map_of_zip_map)

lemma cell_at_reindex_super:
  "set old \<subseteq> set new \<Longrightarrow> cell_at new (reindex old new r) c = cell_at old r c"
proof (cases "c \<in> set new")
  case True
  then show ?thesis by (simp add: cell_at_reindex)
next
  case False
  assume "set old \<subseteq> set new"
  with False have "c \<notin> set old" by blast
  then have "cell_at old r c = NaN" by (rule cell_at_notin)
  with False show ?thesis by (simp add: cell_at_reindex)
qed

lemma length_reindex: "length (reindex old new r) = length new"
  by (simp add: reindex_def)

lemma columns_pd_concat:
  "columns (pd_concat a b) = columns a @ filter (\<lambda>c. c \<notin> set (columns a)) (columns b)"
  by (simp add: pd_concat_def Let_def)

lemma rows_pd_concat:
  "rows (pd_concat a b) =
     map (reindex (columns a) (columns (pd_concat a b))) (rows a) @
     map (reindex (columns b) (columns (pd_concat a b))) (rows b)"
  by (simp add: pd_concat_def Let_def)

lemma set_columns_pd_concat:
  "set (columns (pd_concat a b)) = set (columns a) \<union> set (columns b)"
  by (auto simp: columns_pd_concat)

lemma distinct_columns_pd_concat:
  "distinct (columns a) \<Longrightarrow> distinct (columns b) \<Longrightarrow> distinct (columns (pd_concat a b))"
  by (auto simp: columns_pd_concat)

lemma rectangular_pd_concat: "rectangular (pd_concat a b)"
  unfolding rectangular_def list_all_iff rows_pd_concat
  by (auto simp: length_reindex)

lemma length_rows_pd_concat:
  "length (rows (pd_concat a b)) = length (rows a) + length (rows b)"
  by (simp add: rows_pd_concat)

lemma set_keep_first: "set (keep_first xs) = set xs"
proof (induction xs rule: keep_first.induct)
  case 1
  show ?case by simp
next
  case (2 x xs)
  then show ?case by auto
qed

lemma distinct_keep_first: "distinct (keep_first xs)"
proof (induction xs rule: keep_first.induct)
  case 1
  show ?case by simp
next
  case (2 x xs)
  then show ?case by (simp add: set_keep_first)
qed

lemma columns_drop_duplicates: "columns (drop_duplicates df) = columns df"
  by (simp add: drop_duplicates_def)

lemma set_rows_drop_duplicates: "set (rows (drop_duplicates df)) = set (rows df)"
  by (simp add: drop_duplicates_def set_keep_first)

lemma distinct_rows_drop_duplicates:
  "columns df \<noteq> [] \<Longrightarrow> distinct (rows (drop_duplicates df))"
  by (simp add: drop_duplicates_def distinct_keep_first)

lemma rectangular_drop_duplicates: "rectangular df \<Longrightarrow> rectangular (drop_duplicates df)"
  by (simp add: rectangular_def list_all_iff set_rows_drop_duplicates columns_drop_duplicates)

lemma concat_filter_present:
  "concat (map (\<lambda>l. filter (\<lambda>c. c = l) cols) (filter (\<lambda>l. l \<in> set cols) keys)) =
   concat (map (\<lambda>l. filter (\<lambda>c. c = l) cols) keys)"
proof (induction keys)
  case Nil
  show ?case by simp
next
  case (Cons k keys)
  have "k \<notin> set cols \<Longrightarrow> filter (\<lambda>c. c = k) cols = []"
    by (auto simp: filter_empty_conv)
  with Cons show ?case by simp
qed

lemma getitem_present:
  "set labels \<subseteq> set (columns df) \<Longrightarrow>
   getitem df labels =
     Inr \<lparr>columns = concat (map (\<lambda>l. filter (\<lambda>c. c = l) (columns df)) labels),
          rows = map (\<lambda>r. concat (map (\<lambda>l. map snd (filter (\<lambda>(c, v). c = l)
                                                       (zip (columns df) r))) labels))
                   (rows df)\<rparr>"
  unfolding getitem_def by (simp add: subset_iff)

lemma project_Inr:
  "project m sheet =
     Inr (rename m
       \<lparr>columns = concat (map (\<lambda>l. filter (\<lambda>c. c = l) (columns sheet))
                            (filter (\<lambda>col. col \<in> set (columns sheet)) (map fst m))),
        rows = map (\<lambda>r. concat (map (\<lambda>l. map snd (filter (\<lambda>(c, v). c = l)
                                                     (zip (columns sheet) r)))
                                   (filter (\<lambda>col. col \<in> set (columns sheet)) (map fst m))))
                 (rows sheet)\<rparr>)"
  unfolding project_def by (subst getitem_present) auto

lemma length_rows_project: "project m sheet = Inr d \<Longrightarrow> length (rows d) = length (rows sheet)"
  by (auto simp: project_Inr rename_def)

lemma length_zip_filter:
  "length r = length cols \<Longrightarrow>
   length (filter (\<lambda>(c, v). c = l) (zip cols r)) = length (filter (\<lambda>c. c = l) cols)"
  by (induction r cols rule: list_induct2) auto

lemma length_concat_zip_filter:
  "length r = length cols \<Longrightarrow>
   length (concat (map (\<lambda>l. map snd (filter (\<lambda>(c, v). c = l) (zip cols r))) labels)) =
   length (concat (map (\<lambda>l. filter (\<lambda>c. c = l) cols) labels))"
  by (induction labels) (simp_all add: length_zip_filter)

lemma rectangular_project:
  assumes "project m sheet = Inr d" and "rectangular sheet"
  shows "rectangular d"
proof -
  from assms(1) have d: "d = rename m
       \<lparr>columns = concat (map (\<lambda>l. filter (\<lambda>c. c = l) (columns sheet))
                            (filter (\<lambda>col. col \<in> set (columns sheet)) (map fst m))),
        rows = map (\<lambda>r. concat (map (\<lambda>l. map snd (filter (\<lambda>(c, v). c = l)
                                                     (zip (columns sheet) r)))
                                   (filter (\<lambda>col. col \<in> set (columns sheet)) (map fst m))))
                 (rows sheet)\<rparr>"
    by (simp add: project_Inr)
  show ?thesis
    unfolding rectangular_def list_all_iff
  proof
    fix r
    assume "r \<in> set (rows d)"
    then obtain r0 where r0: "r0 \<in> set (rows sheet)"
      and r: "r = concat (map (\<lambda>l. map snd (filter (\<lambda>(c, v). c = l) (zip (columns sheet) r0)))
                       (filter (\<lambda>col. col \<in> set (columns sheet)) (map fst m)))"
      unfolding d by (auto simp: rename_def)
    from r0 assms(2) have "length r0 = length (columns sheet)"
      by (simp add: rectangular_def list_all_iff)
    from length_concat_zip_filter[OF this] show "length r = length (columns d)"
      unfolding r d by (simp add: rename_def)
  qed
qed

lemma zip_filter_distinct:
  "length r = length cols \<Longrightarrow> distinct cols \<Longrightarrow> l \<in> set cols \<Longrightarrow>
   map snd (filter (\<lambda>(c, v). c = l) (zip cols r)) = [cell_at cols r l]"
proof (induction r cols rule: list_induct2)
  case Nil
  then show ?case by simp
next
  case (Cons x xs c cs)
  show ?case
  proof (cases "c = l")
    case True
    with Cons.prems have "l \<notin> set cs" by simp
    then have "filter (\<lambda>(c, v). c = l) (zip cs xs) = []"
      by (auto simp: filter_empty_conv dest: set_zip_leftD)
    with True show ?thesis by (simp add: cell_at_def)
  next
    case False
    with Cons show ?thesis by (simp add: cell_at_def)
  qed
qed

lemma cell_at_assign_new:
  "length r = length cols \<Longrightarrow> k \<notin> set cols \<Longrightarrow> cell_at (cols @ [k]) (r @ [v]) k = v"
  by (induction r cols rule: list_induct2) (auto simp: cell_at_def)

lemma cell_at_assign_old:
  "length r = length cols \<Longrightarrow> k \<in> set cols \<Longrightarrow>
   cell_at cols (map (\<lambda>(c, x). if c = k then v else x) (zip cols r)) k = v"
  by (induction r cols rule: list_induct2) (auto simp: cell_at_def)

lemma cell_at_assign:
  assumes "rectangular df" and "r \<in> set (rows (assign k v df))"
  shows "cell_at (columns (assign k v df)) r k = v"
proof (cases "k \<in> set (columns df)")
  case True
  with assms(2) obtain r0 where "r0 \<in> set (rows df)"
    and r: "r = map (\<lambda>(c, x). if c = k then v else x) (zip (columns df) r0)"
    by (auto simp: assign_def)
  with assms(1) have "length r0 = length (columns df)"
    by (simp add: rectangular_def list_all_iff)
  from cell_at_assign_old[OF this True] True show ?thesis
    by (simp add: assign_def r)
next
  case False
  with assms(2) obtain r0 where "r0 \<in> set (rows df)" and r: "r = r0 @ [v]"
    by (auto simp: assign_def)
  with assms(1) have "length r0 = length (columns df)"
    by (simp add: rectangular_def list_all_iff)
  from cell_at_assign_new[OF this False] False show ?thesis
    by (simp add: assign_def r)
qed

lemma length_rows_assign: "length (rows (assign k v df)) = length (rows df)"
  by (simp add: assign_def)

lemma assign_has_column: "k \<in> set (columns (assign k v df))"
  by (simp add: assign_def)

lemma distinct_columns_assign:
  "distinct (columns df) \<Longrightarrow> distinct (columns (assign k v df))"
  by (simp add: assign_def)

section \<open>The running tables of the loop\<close>

lemma process_sheet_Inr:
  assumes "process_sheet acc n raw = Inr acc'"
  obtains sheet sd cd where "load_sheet raw = Inr sheet"
    and "project school_data_cols sheet = Inr sd"
    and "project calpads_data_cols sheet = Inr cd"
    and "distinct (columns sd)" and "distinct (columns cd)"
    and "all_school_data acc' = drop_duplicates (pd_concat (all_school_data acc) sd)"
    and "all_calpads_data acc' =
           pd_concat (all_calpads_data acc) (assign (str ''source_sheet'') (Str n) cd)"
  using assms unfolding process_sheet_def
  by (auto split: sum.splits if_splits)

lemma process_sheet_ok:
  assumes "process_sheet acc n raw = Inr acc'" and "tables_ok acc"
  shows "tables_ok acc'"
proof -
  from assms(1) obtain sheet sd cd
    where sd: "distinct (columns sd)" and cd: "distinct (columns cd)"
      and s: "all_school_data acc' = drop_duplicates (pd_concat (all_school_data acc) sd)"
      and c: "all_calpads_data acc' =
                pd_concat (all_calpads_data acc) (assign (str ''source_sheet'') (Str n) cd)"
    by (rule process_sheet_Inr)
  from assms(2) sd have "distinct (columns (all_school_data acc'))"
    unfolding s tables_ok_def
    by (simp add: columns_drop_duplicates distinct_columns_pd_concat)
  moreover have "rectangular (all_school_data acc')"
    unfolding s by (intro rectangular_drop_duplicates rectangular_pd_concat)
  moreover have "columns (all_school_data acc') \<noteq> [] \<longrightarrow> distinct (rows (all_school_data acc'))"
    unfolding s by (simp add: columns_drop_duplicates distinct_rows_drop_duplicates)
  moreover from assms(2) cd have "distinct (columns (all_calpads_data acc'))"
    unfolding c tables_ok_def
    by (simp add: distinct_columns_pd_concat distinct_columns_assign)
  ultimately show ?thesis unfolding tables_ok_def by blast
qed

lemma sheets_loop_ok:
  "sheets_loop wb ns acc = Inr acc' \<Longrightarrow> tables_ok acc \<Longrightarrow> tables_ok acc'"
proof (induction ns arbitrary: acc)
  case Nil
  then show ?case by simp
next
  case (Cons n ns)
  from Cons.prems(1) obtain raw acc1 where "process_sheet acc n raw = Inr acc1"
    and "sheets_loop wb ns acc1 = Inr acc'"
    by (auto split: sum.splits)
  with Cons.IH Cons.prems(2) show ?case by (blast intro: process_sheet_ok)
qed

lemma files_loop_ok:
  "files_loop files acc = Inr acc' \<Longrightarrow> tables_ok acc \<Longrightarrow> tables_ok acc'"
proof (induction files arbitrary: acc)
  case Nil
  then show ?case by simp
next
  case (Cons wb wbs)
  from Cons.prems(1) obtain acc1 where "sheets_loop wb sheet_names acc = Inr acc1"
    and "files_loop wbs acc1 = Inr acc'"
    by (auto split: sum.splits)
  with Cons.IH Cons.prems(2) show ?case by (blast intro: sheets_loop_ok)
qed

lemma tables_ok_init:
  "tables_ok \<lparr>all_school_data = DataFrame, all_calpads_data = DataFrame\<rparr>"
  by (simp add: tables_ok_def DataFrame_def rectangular_def)

lemma rectangular_load_sheet:
  assumes "load_sheet raw = Inr sheet" and "rectangular raw"
  shows "rectangular sheet"
proof -
  from load_sheet_Inr[OF assms(1)] obtain names rest
    where "columns sheet = map re_sub names" and "length names = length (columns raw)"
      and "rows sheet = filter (\<lambda>r. cell_at (columns sheet) r (str ''County Name'') =
                                     Str (str ''San Francisco'')) (rows raw)"
    by blast
  then have "length (columns sheet) = length (columns raw)"
    and "set (rows sheet) \<subseteq> set (rows raw)"
    by auto
  with assms(2) show ?thesis
    unfolding rectangular_def list_all_iff by auto
qed

lemma tagged_pd_concat:
  "length (tagged n (pd_concat a b)) = length (tagged n a) + length (tagged n b)"
proof -
  let ?cols = "columns (pd_concat a b)"
  have a: "set (columns a) \<subseteq> set ?cols" and b: "set (columns b) \<subseteq> set ?cols"
    by (simp_all add: set_columns_pd_concat)
  show ?thesis
    unfolding tagged_def rows_pd_concat
    by (simp add: filter_map comp_def cell_at_reindex_super[OF a] cell_at_reindex_super[OF b])
qed

lemma tagged_assign:
  assumes "rectangular df"
  shows "tagged n (assign (str ''source_sheet'') (Str name) df) =
         (if name = n then rows (assign (str ''source_sheet'') (Str name) df) else [])"
proof -
  have "\<forall>r \<in> set (rows (assign (str ''source_sheet'') (Str name) df)).
          cell_at (columns (assign (str ''source_sheet'') (Str name) df)) r (str ''source_sheet'') =
          Str name"
    using cell_at_assign[OF assms] by blast
  then show ?thesis
    unfolding tagged_def by (auto simp: filter_empty_conv filter_id_conv)
qed

lemma process_sheet_tagged:
  assumes "process_sheet acc name raw = Inr acc'" and "rectangular raw"
  shows "length (tagged n (all_calpads_data acc')) =
         length (tagged n (all_calpads_data acc)) +
         (if name = n
          then (case load_sheet raw of Inl e \<Rightarrow> 0 | Inr sheet \<Rightarrow> length (rows sheet))
          else 0)"
proof -
  from assms(1) obtain sheet sd cd
    where l: "load_sheet raw = Inr sheet"
      and p: "project calpads_data_cols sheet = Inr cd"
      and c: "all_calpads_data acc' =
                pd_concat (all_calpads_data acc) (assign (str ''source_sheet'') (Str name) cd)"
    by (rule process_sheet_Inr)
  from rectangular_project[OF p rectangular_load_sheet[OF l assms(2)]]
  have "rectangular cd" .
  from tagged_assign[OF this] length_rows_project[OF p] l show ?thesis
    unfolding c by (simp add: tagged_pd_concat length_rows_assign)
qed

lemma process_sheet_all_tagged:
  assumes "process_sheet acc name raw = Inr acc'" and "rectangular raw"
    and "\<forall>r \<in> set (rows (all_calpads_data acc)).
           \<exists>n \<in> N. cell_at (columns (all_calpads_data acc)) r (str ''source_sheet'') = Str n"
    and "name \<in> N"
  shows "\<forall>r \<in> set (rows (all_calpads_data acc')).
           \<exists>n \<in> N. cell_at (columns (all_calpads_data acc')) r (str ''source_sheet'') = Str n"
proof
  fix r
  assume r: "r \<in> set (rows (all_calpads_data acc'))"
  from assms(1) obtain sheet sd cd
    where l: "load_sheet raw = Inr sheet"
      and p: "project calpads_data_cols sheet = Inr cd"
      and c: "all_calpads_data acc' =
                pd_concat (all_calpads_data acc) (assign (str ''source_sheet'') (Str name) cd)"
    by (rule process_sheet_Inr)
  let ?b = "assign (str ''source_sheet'') (Str name) cd"
  let ?cols = "columns (all_calpads_data acc')"
  have a: "set (columns (all_calpads_data acc)) \<subseteq> set ?cols" and b: "set (columns ?b) \<subseteq> set ?cols"
    unfolding c by (simp_all add: set_columns_pd_concat)
  from rectangular_project[OF p rectangular_load_sheet[OF l assms(2)]]
  have rect: "rectangular cd" .
  from r consider r0 where "r0 \<in> set (rows (all_calpads_data acc))"
      and "r = reindex (columns (all_calpads_data acc)) ?cols r0"
    | r0 where "r0 \<in> set (rows ?b)" and "r = reindex (columns ?b) ?cols r0"
    unfolding c rows_pd_concat by auto
  then show "\<exists>n \<in> N. cell_at ?cols r (str ''source_sheet'') = Str n"
  proof cases
    case 1
    with assms(3) show ?thesis by (simp add: cell_at_reindex_super[OF a])
  next
    case 2
    with cell_at_assign[OF rect] assms(4) show ?thesis
      by (auto simp: cell_at_reindex_super[OF b])
  qed
qed

lemma read_excel_rectangular:
  "read_excel wb n = Inr raw \<Longrightarrow> list_all (\<lambda>(n, raw). rectangular raw) wb \<Longrightarrow> rectangular raw"
  by (auto simp: read_excel_def list_all_iff split: option.splits dest!: map_of_SomeD)

lemma sheets_loop_tagged:
  "sheets_loop wb ns acc = Inr acc' \<Longrightarrow> list_all (\<lambda>(n, raw). rectangular raw) wb \<Longrightarrow>
   length (tagged n (all_calpads_data acc')) =
   length (tagged n (all_calpads_data acc)) +
   sum_list (map (\<lambda>name. if name = n then loaded_rows wb name else 0) ns)"
proof (induction ns arbitrary: acc)
  case Nil
  then show ?case by simp
next
  case (Cons name ns)
  from Cons.prems(1) obtain raw acc1 where r: "read_excel wb name = Inr raw"
    and p: "process_sheet acc name raw = Inr acc1"
    and s: "sheets_loop wb ns acc1 = Inr acc'"
    by (auto split: sum.splits)
  from process_sheet_Inr[OF p] obtain sheet where l: "load_sheet raw = Inr sheet" by metis
  from r l have lr: "loaded_rows wb name = length (rows sheet)"
    by (simp add: loaded_rows_def)
  from process_sheet_tagged[OF p read_excel_rectangular[OF r Cons.prems(2)], of n] l lr
  have "length (tagged n (all_calpads_data acc1)) =
        length (tagged n (all_calpads_data acc)) + (if name = n then loaded_rows wb name else 0)"
    by auto
  with Cons.IH[OF s Cons.prems(2)] show ?case by simp
qed

lemma sum_list_select:
  "distinct ns \<Longrightarrow> n \<in> set ns \<Longrightarrow>
   sum_list (map (\<lambda>name. if name = n then f name else 0) ns) = (f n :: nat)"
proof (induction ns)
  case Nil
  then show ?case by simp
next
  case (Cons a ns)
  show ?case
  proof (cases "a = n")
    case True
    with Cons.prems have "n \<notin> set ns" by simp
    then have "sum_list (map (\<lambda>name. if name = n then f name else 0) ns) = 0"
      by (induction ns) auto
    with True show ?thesis by simp
  next
    case False
    with Cons show ?thesis by simp
  qed
qed

lemma distinct_sheet_names: "distinct sheet_names"
  by (simp add: sheet_names_def str_def)

lemma files_loop_tagged:
  "files_loop files acc = Inr acc' \<Longrightarrow> rectangular_files files \<Longrightarrow> n \<in> set sheet_names \<Longrightarrow>
   length (tagged n (all_calpads_data acc')) =
   length (tagged n (all_calpads_data acc)) + sum_list (map (\<lambda>wb. loaded_rows wb n) files)"
proof (induction files arbitrary: acc)
  case Nil
  then show ?case by simp
next
  case (Cons wb wbs)
  from Cons.prems(1) obtain acc1 where s: "sheets_loop wb sheet_names acc = Inr acc1"
    and f: "files_loop wbs acc1 = Inr acc'"
    by (auto split: sum.splits)
  from Cons.prems(2) have w: "list_all (\<lambda>(n, raw). rectangular raw) wb"
    and ws: "rectangular_files wbs"
    by (simp_all add: rectangular_files_def)
  from sheets_loop_tagged[OF s w, of n] sum_list_select[OF distinct_sheet_names Cons.prems(3)]
  have "length (tagged n (all_calpads_data acc1)) =
        length (tagged n (all_calpads_data acc)) + loaded_rows wb n"
    by simp
  with Cons.IH[OF f ws Cons.prems(3)] show ?case by simp
qed

lemma sheets_loop_all_tagged:
  "sheets_loop wb ns acc = Inr acc' \<Longrightarrow> list_all (\<lambda>(n, raw). rectangular raw) wb \<Longrightarrow>
   set ns \<subseteq> N \<Longrightarrow>
   \<forall>r \<in> set (rows (all_calpads_data acc)).
      \<exists>n \<in> N. cell_at (columns (all_calpads_data acc)) r (str ''source_sheet'') = Str n \<Longrightarrow>
   \<forall>r \<in> set (rows (all_calpads_data acc')).
      \<exists>n \<in> N. cell_at (columns (all_calpads_data acc')) r (str ''source_sheet'') = Str n"
proof (induction ns arbitrary: acc)
  case Nil
  then show ?case by simp
next
  case (Cons name ns)
  from Cons.prems(1) obtain raw acc1 where r: "read_excel wb name = Inr raw"
    and p: "process_sheet acc name raw = Inr acc1"
    and s: "sheets_loop wb ns acc1 = Inr acc'"
    by (auto split: sum.splits)
  from Cons.prems(3) have "name \<in> N" and ns: "set ns \<subseteq> N" by simp_all
  from process_sheet_all_tagged[OF p read_excel_rectangular[OF r Cons.prems(2)] Cons.prems(4) this(1)]
  have "\<forall>r \<in> set (rows (all_calpads_data acc1)).
      \<exists>n \<in> N. cell_at (columns (all_calpads_data acc1)) r (str ''source_sheet'') = Str n" .
  from Cons.IH[OF s Cons.prems(2) ns this] show ?case .
qed

lemma files_loop_all_tagged:
  "files_loop files acc = Inr acc' \<Longrightarrow> rectangular_files files \<Longrightarrow>
   \<forall>r \<in> set (rows (all_calpads_data acc)).
      \<exists>n \<in> set sheet_names.
         cell_at (columns (all_calpads_data acc)) r (str ''source_sheet'') = Str n \<Longrightarrow>
   \<forall>r \<in> set (rows (all_calpads_data acc')).
      \<exists>n \<in> set sheet_names.
         cell_at (columns (all_calpads_data acc')) r (str ''source_sheet'') = Str n"
proof (induction files arbitrary: acc)
  case Nil
  then show ?case by simp
next
  case (Cons wb wbs)
  from Cons.prems(1) obtain acc1 where s: "sheets_loop wb sheet_names acc = Inr acc1"
    and f: "files_loop wbs acc1 = Inr acc'"
    by (auto split: sum.splits)
  from Cons.prems(2) have w: "list_all (\<lambda>(n, raw). rectangular raw) wb"
    and ws: "rectangular_files wbs"
    by (simp_all add: rectangular_files_def)
  from sheets_loop_all_tagged[OF s w subset_refl Cons.prems(3)]
  have "\<forall>r \<in> set (rows (all_calpads_data acc1)).
      \<exists>n \<in> set sheet_names.
         cell_at (columns (all_calpads_data acc1)) r (str ''source_sheet'') = Str n" .
  from Cons.IH[OF f ws this] show ?case .
qed

lemma filter_eq_distinct:
  "distinct ys \<Longrightarrow> filter (\<lambda>r. r = a) ys = (if a \<in> set ys then [a] else [])"
  by (induction ys) auto

lemma semi_join:
  "distinct ys \<Longrightarrow>
   concat (map (\<lambda>l. map (\<lambda>r. l) (filter (\<lambda>r. r = k l) ys)) xs) =
   filter (\<lambda>l. k l \<in> set ys) xs"
  by (induction xs) (simp_all add: filter_eq_distinct)

lemma pd_merge_codes:
  assumes c: "columns right = [k]" and l1: "\<forall>r \<in> set (rows right). length r = 1"
    and dr: "distinct (rows right)" and dl: "distinct (columns left)"
  shows "pd_merge left right =
         (if k \<in> set (columns left)
          then Inr \<lparr>columns = columns left,
                    rows = filter (\<lambda>l. [cell_at (columns left) l k] \<in> set (rows right))
                             (rows left)\<rparr>
          else Inl MergeError)"
proof (cases "k \<in> set (columns left)")
  case False
  then have "filter (\<lambda>c. c \<in> set (columns right)) (columns left) = []"
    by (auto simp: c filter_empty_conv)
  with False show ?thesis by (simp add: pd_merge_def)
next
  case True
  have "filter (\<lambda>c. c \<in> set (columns right)) (columns left) = filter (\<lambda>c. c = k) (columns left)"
    by (simp add: c)
  with True dl have on: "filter (\<lambda>c. c \<in> set (columns right)) (columns left) = [k]"
    by (simp add: filter_eq_distinct)
  have key: "reindex (columns right) [k] r = r" if "r \<in> set (rows right)" for r
  proof -
    from that l1 have "length r = Suc 0" by simp
    then obtain v where "r = [v]" by (auto simp: length_Suc_conv)
    then show ?thesis by (simp add: reindex_def c cell_at_def)
  qed
  have "filter (\<lambda>r. reindex (columns right) [k] r = reindex (columns left) [k] l) (rows right) =
        filter (\<lambda>r. r = [cell_at (columns left) l k]) (rows right)" for l
    by (rule filter_cong) (simp_all add: key, simp add: reindex_def)
  then have "concat (map (\<lambda>l. map (\<lambda>r. l @ reindex (columns right) [] r)
                (filter (\<lambda>r. reindex (columns right) [k] r = reindex (columns left) [k] l)
                   (rows right))) (rows left)) =
        concat (map (\<lambda>l. map (\<lambda>r. l)
                (filter (\<lambda>r. r = [cell_at (columns left) l k]) (rows right))) (rows left))"
    by (simp add: reindex_def)
  also have "\<dots> = filter (\<lambda>l. [cell_at (columns left) l k] \<in> set (rows right)) (rows left)"
    using dr by (rule semi_join)
  finally show ?thesis using True dl
    by (simp add: pd_merge_def c Let_def filter_eq_distinct)
qed

lemma post_pass_Inr:
  assumes ok: "tables_ok acc" and pp: "post_pass acc = Inr out"
  shows "str ''grade_low'' \<in> set (columns (all_school_data acc)) \<and>
         str ''school_code'' \<in> set (columns (all_school_data acc)) \<and>
         str ''school_code'' \<in> set (columns (all_calpads_data acc)) \<and>
         all_school_data out =
           (all_school_data acc)\<lparr>rows :=
              filter (\<lambda>r. cell_at (columns (all_school_data acc)) r (str ''grade_low'') \<noteq> NaN)
                (rows (all_school_data acc))\<rparr> \<and>
         all_calpads_data out =
           \<lparr>columns = columns (all_calpads_data acc),
            rows = filter (\<lambda>l. cell_at (columns (all_calpads_data acc)) l (str ''school_code'') \<in>
                               (\<lambda>e. cell_at (columns (all_school_data acc)) e (str ''school_code'')) `
                                 set (rows (all_school_data out)))
                     (rows (all_calpads_data acc))\<rparr>"
proof -
  define school where "school = all_school_data acc"
  define calp where "calp = all_calpads_data acc"
  define sc where "sc = str ''school_code''"
  define school' where
    "school' = school\<lparr>rows := filter (\<lambda>r. cell_at (columns school) r (str ''grade_low'') \<noteq> NaN)
                                  (rows school)\<rparr>"
  from ok have dc: "distinct (columns school)" and rect: "rectangular school"
    and dl: "distinct (columns calp)"
    by (simp_all add: tables_ok_def school_def calp_def)
  from pp have gl: "str ''grade_low'' \<in> set (columns school)"
    by (auto simp: post_pass_def Let_def school_def split: if_splits)
  with pp obtain codes m where g: "getitem school' [sc] = Inr codes"
    and mg: "pd_merge calp (drop_duplicates codes) = Inr m"
    and out: "out = \<lparr>all_school_data = school', all_calpads_data = m\<rparr>"
    by (auto simp: post_pass_def Let_def school_def school'_def calp_def sc_def
        split: sum.splits)
  from g have scs: "sc \<in> set (columns school)"
    by (auto simp: getitem_def school'_def split: if_splits)
  have rows': "\<forall>r \<in> set (rows school'). length r = length (columns school)"
    using rect by (auto simp: school'_def rectangular_def list_all_iff)
  have "map (\<lambda>r. map snd (filter (\<lambda>(c, v). c = sc) (zip (columns school) r))) (rows school') =
        map (\<lambda>r. [cell_at (columns school) r sc]) (rows school')"
    by (rule map_cong[OF refl]) (simp add: rows' zip_filter_distinct[OF _ dc scs])
  with g scs dc have codes: "codes = \<lparr>columns = [sc],
      rows = map (\<lambda>r. [cell_at (columns school) r sc]) (rows school')\<rparr>"
    by (auto simp: getitem_def school'_def filter_eq_distinct split: if_splits)
  let ?right = "drop_duplicates codes"
  have c: "columns ?right = [sc]"
    by (simp add: columns_drop_duplicates codes)
  have sr: "set (rows ?right) = (\<lambda>r. [cell_at (columns school) r sc]) ` set (rows school')"
    by (simp add: set_rows_drop_duplicates codes)
  then have l1: "\<forall>r \<in> set (rows ?right). length r = 1"
    by auto
  have dr: "distinct (rows ?right)"
    by (rule distinct_rows_drop_duplicates) (simp add: codes)
  from pd_merge_codes[OF c l1 dr dl] mg
  have scl: "sc \<in> set (columns calp)"
    and m: "m = \<lparr>columns = columns calp,
                 rows = filter (\<lambda>l. [cell_at (columns calp) l sc] \<in> set (rows ?right))
                          (rows calp)\<rparr>"
    by (auto split: if_splits)
  have "([cell_at (columns calp) l sc] \<in> set (rows ?right)) =
        (cell_at (columns calp) l sc \<in> (\<lambda>e. cell_at (columns school) e sc) ` set (rows school'))"
    for l
    unfolding sr by auto
  with m have m': "m = \<lparr>columns = columns calp,
                 rows = filter (\<lambda>l. cell_at (columns calp) l sc \<in>
                                   (\<lambda>e. cell_at (columns school) e sc) ` set (rows school'))
                          (rows calp)\<rparr>"
    by simp
  from gl scs scl out m' show ?thesis
    unfolding school_def[symmetric] calp_def[symmetric] sc_def[symmetric]
    by (simp add: school'_def)
qed

lemma aggregate_Inr:
  "aggregate files = Inr out \<longleftrightarrow>
   (\<exists>acc. files_loop files \<lparr>all_school_data = DataFrame, all_calpads_data = DataFrame\<rparr> = Inr acc \<and>
          post_pass acc = Inr out)"
  by (auto simp: aggregate_def split: sum.splits)

section \<open>Properties of the aggregator\<close>

lemma count_list_filter:
  "count_list (filter P xs) r = (if P r then count_list xs r else 0)"
  by (induction xs) auto

lemma concat_singletons: "concat (map (\<lambda>l. [f l]) labels) = map f labels"
  by (induction labels) simp_all

lemma concat_filter_distinct:
  "distinct cols \<Longrightarrow> set labels \<subseteq> set cols \<Longrightarrow>
   concat (map (\<lambda>l. filter (\<lambda>c. c = l) cols) labels) = labels"
  by (induction labels) (simp_all add: filter_eq_distinct)

lemma example_loop:
  "files_loop [example_workbook, example_workbook]
     \<lparr>all_school_data = DataFrame, all_calpads_data = DataFrame\<rparr> = Inr example_accumulated"
  by (simp add: example_workbook_def example_accumulated_def sheet_names_def read_excel_def
      process_sheet_def load_sheet_def project_def getitem_def rename_def pd_concat_def
      drop_duplicates_def assign_def school_data_cols_def calpads_data_cols_def DataFrame_def
      reindex_def cell_at_def str_def is_space_def Let_def)

lemma example_post: "post_pass example_accumulated = Inr example_output"
  by (simp add: post_pass_def example_accumulated_def example_output_def getitem_def
      pd_merge_def drop_duplicates_def reindex_def cell_at_def str_def Let_def)

lemma example_aggregate:
  "aggregate [example_workbook, example_workbook] = Inr example_output"
  by (simp only: aggregate_def example_loop example_post sum.case)

text \<open>
  C8: projecting a sheet through a column map never fails. For every map and every
  sheet the projection returns a table with as many rows as the sheet; its columns
  are, for each key of the map in order, the sheet's columns of that label, renamed
  (none for a key the sheet has no column for). On a rectangular sheet with distinct
  labels these are the map's keys present in the sheet, and each row holds the sheet's
  cells under them.
\<close>

theorem project_never_fails:
  "(\<exists>d. project m sheet = Inr d \<and> length (rows d) = length (rows sheet) \<and>
        columns d = map (\<lambda>c. case map_of m c of Some c' \<Rightarrow> c' | None \<Rightarrow> c)
                      (concat (map (\<lambda>k. filter (\<lambda>c. c = k) (columns sheet)) (map fst m)))) \<and>
   (distinct (columns sheet) \<and> rectangular sheet \<longrightarrow>
      project m sheet =
        Inr \<lparr>columns = map (\<lambda>c. case map_of m c of Some c' \<Rightarrow> c' | None \<Rightarrow> c)
                         (filter (\<lambda>k. k \<in> set (columns sheet)) (map fst m)),
             rows = map (reindex (columns sheet)
                           (filter (\<lambda>k. k \<in> set (columns sheet)) (map fst m)))
                      (rows sheet)\<rparr>)"
proof (intro conjI impI)
  show "\<exists>d. project m sheet = Inr d \<and> length (rows d) = length (rows sheet) \<and>
        columns d = map (\<lambda>c. case map_of m c of Some c' \<Rightarrow> c' | None \<Rightarrow> c)
                      (concat (map (\<lambda>k. filter (\<lambda>c. c = k) (columns sheet)) (map fst m)))"
    by (simp add: project_Inr rename_def concat_filter_present)
next
  assume a: "distinct (columns sheet) \<and> rectangular sheet"
  let ?present = "filter (\<lambda>k. k \<in> set (columns sheet)) (map fst m)"
  have p: "set ?present \<subseteq> set (columns sheet)" by auto
  have "concat (map (\<lambda>l. map snd (filter (\<lambda>(c, v). c = l) (zip (columns sheet) r))) ?present) =
        reindex (columns sheet) ?present r" if "r \<in> set (rows sheet)" for r
  proof -
    from that a have len: "length r = length (columns sheet)"
      by (simp add: rectangular_def list_all_iff)
    have "map (\<lambda>l. map snd (filter (\<lambda>(c, v). c = l) (zip (columns sheet) r))) ?present =
          map (\<lambda>l. [cell_at (columns sheet) r l]) ?present"
      by (rule map_cong[OF refl]) (use a len in \<open>simp add: zip_filter_distinct\<close>)
    then have "concat (map (\<lambda>l. map snd (filter (\<lambda>(c, v). c = l) (zip (columns sheet) r)))
                        ?present) =
               concat (map (\<lambda>l. [cell_at (columns sheet) r l]) ?present)"
      by (rule arg_cong)
    also have "\<dots> = reindex (columns sheet) ?present r"
      by (simp only: concat_singletons reindex_def)
    finally show ?thesis .
  qed
  then have "map (\<lambda>r. concat (map (\<lambda>l. map snd (filter (\<lambda>(c, v). c = l) (zip (columns sheet) r)))
                                 ?present)) (rows sheet) =
             map (reindex (columns sheet) ?present) (rows sheet)"
    by (intro map_cong[OF refl])
  with a concat_filter_distinct[OF _ p]
  show "project m sheet =
        Inr \<lparr>columns = map (\<lambda>c. case map_of m c of Some c' \<Rightarrow> c' | None \<Rightarrow> c) ?present,
             rows = map (reindex (columns sheet) ?present) (rows sheet)\<rparr>"
    by (simp add: project_Inr rename_def)
qed

theorem project_never_fails_witness:
  "project school_data_cols example_loaded =
     Inr \<lparr>columns = [str ''school_code''], rows = [[Num 1], [Num 4]]\<rparr>"
proof -
  have "distinct (columns example_loaded) \<and> rectangular example_loaded"
    by (simp add: example_loaded_def rectangular_def str_def)
  with project_never_fails[of school_data_cols example_loaded]
  have "project school_data_cols example_loaded =
        Inr \<lparr>columns = map (\<lambda>c. case map_of school_data_cols c of Some c' \<Rightarrow> c' | None \<Rightarrow> c)
                         (filter (\<lambda>k. k \<in> set (columns example_loaded)) (map fst school_data_cols)),
             rows = map (reindex (columns example_loaded)
                           (filter (\<lambda>k. k \<in> set (columns example_loaded)) (map fst school_data_cols)))
                      (rows example_loaded)\<rparr>"
    by blast
  then show ?thesis
    by (simp add: example_loaded_def school_data_cols_def reindex_def cell_at_def str_def)
qed

text \<open>
  C5: when the aggregator returns, the entity table it writes has no two equal rows
  and no row whose \<open>grade_low\<close> cell is missing.
\<close>

theorem entity_table_distinct_graded:
  assumes "aggregate files = Inr out"
  shows "distinct (rows (all_school_data out)) \<and>
         str ''grade_low'' \<in> set (columns (all_school_data out)) \<and>
         (\<forall>r \<in> set (rows (all_school_data out)).
            cell_at (columns (all_school_data out)) r (str ''grade_low'') \<noteq> NaN)"
proof -
  from assms obtain acc
    where l: "files_loop files \<lparr>all_school_data = DataFrame, all_calpads_data = DataFrame\<rparr> = Inr acc"
      and p: "post_pass acc = Inr out"
    by (auto simp: aggregate_Inr)
  from files_loop_ok[OF l tables_ok_init] have ok: "tables_ok acc" .
  from post_pass_Inr[OF ok p]
  have gl: "str ''grade_low'' \<in> set (columns (all_school_data acc))"
    and s: "all_school_data out =
           (all_school_data acc)\<lparr>rows :=
              filter (\<lambda>r. cell_at (columns (all_school_data acc)) r (str ''grade_low'') \<noteq> NaN)
                (rows (all_school_data acc))\<rparr>"
    by blast+
  from gl have "columns (all_school_data acc) \<noteq> []" by auto
  with ok have "distinct (rows (all_school_data acc))" by (simp add: tables_ok_def)
  with gl show ?thesis unfolding s by simp
qed

theorem entity_table_distinct_graded_witness:
  "aggregate [example_workbook, example_workbook] = Inr example_output \<and>
   rows (all_school_data example_output) = [[Num 101, Str (str ''K'')]] \<and>
   distinct (rows (all_school_data example_output)) \<and>
   cell_at (columns (all_school_data example_output)) [Num 101, Str (str ''K'')] (str ''grade_low'') \<noteq> NaN"
proof -
  have "rows (all_school_data example_output) = [[Num 101, Str (str ''K'')]]"
    by (simp add: example_output_def)
  with entity_table_distinct_graded[OF example_aggregate] example_aggregate
  show ?thesis by simp
qed

text \<open>
  C4: when the loop has run and the post-pass returns, every entity code in the final
  metric table is the code of a row of the final entity table; the final metric rows
  are rows of the accumulated metric table, unchanged, and an accumulated row whose
  code is not in the final entity table is not among them.
\<close>

theorem metric_codes_in_entity_table:
  assumes "files_loop files \<lparr>all_school_data = DataFrame, all_calpads_data = DataFrame\<rparr> = Inr acc"
    and "post_pass acc = Inr out"
  shows "aggregate files = Inr out \<and>
         str ''school_code'' \<in> set (columns (all_calpads_data out)) \<and>
         str ''school_code'' \<in> set (columns (all_school_data out)) \<and>
         (\<forall>r \<in> set (rows (all_calpads_data out)).
            \<exists>e \<in> set (rows (all_school_data out)).
              cell_at (columns (all_calpads_data out)) r (str ''school_code'') =
              cell_at (columns (all_school_data out)) e (str ''school_code'')) \<and>
         set (rows (all_calpads_data out)) \<subseteq> set (rows (all_calpads_data acc)) \<and>
         (\<forall>r \<in> set (rows (all_calpads_data acc)).
            (\<forall>e \<in> set (rows (all_school_data out)).
               cell_at (columns (all_calpads_data acc)) r (str ''school_code'') \<noteq>
               cell_at (columns (all_school_data out)) e (str ''school_code'')) \<longrightarrow>
            r \<notin> set (rows (all_calpads_data out)))"
proof -
  from files_loop_ok[OF assms(1) tables_ok_init] have ok: "tables_ok acc" .
  define P where "P = (\<lambda>l. cell_at (columns (all_calpads_data acc)) l (str ''school_code'') \<in>
                               (\<lambda>e. cell_at (columns (all_school_data acc)) e (str ''school_code'')) `
                                 set (rows (all_school_data out)))"
  from post_pass_Inr[OF ok assms(2)]
  have scs: "str ''school_code'' \<in> set (columns (all_school_data acc))"
    and scl: "str ''school_code'' \<in> set (columns (all_calpads_data acc))"
    and s: "all_school_data out =
           (all_school_data acc)\<lparr>rows :=
              filter (\<lambda>r. cell_at (columns (all_school_data acc)) r (str ''grade_low'') \<noteq> NaN)
                (rows (all_school_data acc))\<rparr>"
    and m: "all_calpads_data out =
           \<lparr>columns = columns (all_calpads_data acc), rows = filter P (rows (all_calpads_data acc))\<rparr>"
    unfolding P_def by blast+
  from s have cs: "columns (all_school_data out) = columns (all_school_data acc)" by simp
  from m have cm: "columns (all_calpads_data out) = columns (all_calpads_data acc)"
    and rm: "rows (all_calpads_data out) = filter P (rows (all_calpads_data acc))"
    by simp_all
  have 1: "aggregate files = Inr out"
    using assms by (auto simp: aggregate_Inr)
  have 2: "\<forall>r \<in> set (rows (all_calpads_data out)).
            \<exists>e \<in> set (rows (all_school_data out)).
              cell_at (columns (all_calpads_data out)) r (str ''school_code'') =
              cell_at (columns (all_school_data out)) e (str ''school_code'')"
    unfolding cm cs rm by (auto simp: P_def)
  have 3: "set (rows (all_calpads_data out)) \<subseteq> set (rows (all_calpads_data acc))"
    unfolding rm by auto
  have 4: "\<forall>r \<in> set (rows (all_calpads_data acc)).
            (\<forall>e \<in> set (rows (all_school_data out)).
               cell_at (columns (all_calpads_data acc)) r (str ''school_code'') \<noteq>
               cell_at (columns (all_school_data out)) e (str ''school_code'')) \<longrightarrow>
            r \<notin> set (rows (all_calpads_data out))"
    unfolding cs rm by (auto simp: P_def)
  from 1 2 3 4 scs scl show ?thesis unfolding cm cs by blast
qed

theorem metric_codes_in_entity_table_witness:
  "aggregate [example_workbook, example_workbook] = Inr example_output \<and>
   [Str (str ''2021-2022''), Num 10, Str (str ''School-Level CALPADS UPC Data''), Num 102]
     \<in> set (rows (all_calpads_data example_accumulated)) \<and>
   [Str (str ''2021-2022''), Num 10, Str (str ''School-Level CALPADS UPC Data''), Num 102]
     \<notin> set (rows (all_calpads_data example_output)) \<and>
   [Str (str ''2021-2022''), Num 300, Str (str ''School-Level CALPADS UPC Data''), Num 101]
     \<in> set (rows (all_calpads_data example_output))"
proof -
  let ?r = "[Str (str ''2021-2022''), Num 10, Str (str ''School-Level CALPADS UPC Data''), Num 102]"
  have a: "?r \<in> set (rows (all_calpads_data example_accumulated))"
    by (simp add: example_accumulated_def)
  have b: "\<forall>e \<in> set (rows (all_school_data example_output)).
             cell_at (columns (all_calpads_data example_accumulated)) ?r (str ''school_code'') \<noteq>
             cell_at (columns (all_school_data example_output)) e (str ''school_code'')"
    by (simp add: example_accumulated_def example_output_def cell_at_def str_def)
  have c: "[Str (str ''2021-2022''), Num 300, Str (str ''School-Level CALPADS UPC Data''), Num 101]
     \<in> set (rows (all_calpads_data example_output))"
    by (simp add: example_output_def)
  from metric_codes_in_entity_table[OF example_loop example_post] a b c
  show ?thesis by blast
qed

lemma process_sheet_length:
  assumes "process_sheet acc name raw = Inr acc'"
  shows "length (rows (all_calpads_data acc')) =
         length (rows (all_calpads_data acc)) +
         (case load_sheet raw of Inl e \<Rightarrow> 0 | Inr sheet \<Rightarrow> length (rows sheet))"
proof -
  from assms obtain sheet sd cd
    where l: "load_sheet raw = Inr sheet"
      and p: "project calpads_data_cols sheet = Inr cd"
      and c: "all_calpads_data acc' =
                pd_concat (all_calpads_data acc) (assign (str ''source_sheet'') (Str name) cd)"
    by (rule process_sheet_Inr)
  from length_rows_project[OF p] l show ?thesis
    unfolding c by (simp add: length_rows_pd_concat length_rows_assign)
qed

lemma sheets_loop_length:
  "sheets_loop wb ns acc = Inr acc' \<Longrightarrow>
   length (rows (all_calpads_data acc')) =
   length (rows (all_calpads_data acc)) + sum_list (map (loaded_rows wb) ns)"
proof (induction ns arbitrary: acc)
  case Nil
  then show ?case by simp
next
  case (Cons name ns)
  from Cons.prems obtain raw acc1 where r: "read_excel wb name = Inr raw"
    and p: "process_sheet acc name raw = Inr acc1"
    and s: "sheets_loop wb ns acc1 = Inr acc'"
    by (auto split: sum.splits)
  from process_sheet_length[OF p] r
  have "length (rows (all_calpads_data acc1)) =
        length (rows (all_calpads_data acc)) + loaded_rows wb name"
    by (simp add: loaded_rows_def)
  with Cons.IH[OF s] show ?case by simp
qed

lemma files_loop_length:
  "files_loop files acc = Inr acc' \<Longrightarrow>
   length (rows (all_calpads_data acc')) =
   length (rows (all_calpads_data acc)) +
   sum_list (map (\<lambda>wb. sum_list (map (loaded_rows wb) sheet_names)) files)"
proof (induction files arbitrary: acc)
  case Nil
  then show ?case by simp
next
  case (Cons wb wbs)
  from Cons.prems obtain acc1 where s: "sheets_loop wb sheet_names acc = Inr acc1"
    and f: "files_loop wbs acc1 = Inr acc'"
    by (auto split: sum.splits)
  from sheets_loop_length[OF s] Cons.IH[OF f] show ?case by simp
qed

text \<open>
  C9: metric rows are never deduplicated. Every row of the accumulated metric table
  carries a sheet name in \<open>source_sheet\<close>; for each sheet name the table has
  exactly as many rows tagged with it as \<open>load_sheet\<close> returned for the sheets of
  that name, over all files, and it has as many rows in all as \<open>load_sheet\<close>
  returned. The final entity table is the accumulated one without the rows whose
  \<open>grade_low\<close> is missing; the final metric table keeps the columns and is the
  accumulated one filtered by "the code is the code of an accumulated entity row whose
  \<open>grade_low\<close> is not missing": a row whose code survives occurs exactly as often as
  it was accumulated, any other row not at all.
\<close>

theorem metric_rows_not_deduplicated:
  assumes "rectangular_files files"
    and "files_loop files \<lparr>all_school_data = DataFrame, all_calpads_data = DataFrame\<rparr> = Inr acc"
    and "post_pass acc = Inr out"
  shows "aggregate files = Inr out \<and>
         (\<forall>r \<in> set (rows (all_calpads_data acc)).
            \<exists>n \<in> set sheet_names.
              cell_at (columns (all_calpads_data acc)) r (str ''source_sheet'') = Str n) \<and>
         (\<forall>n \<in> set sheet_names.
            length (tagged n (all_calpads_data acc)) =
            sum_list (map (\<lambda>wb. loaded_rows wb n) files)) \<and>
         length (rows (all_calpads_data acc)) =
           sum_list (map (\<lambda>wb. sum_list (map (loaded_rows wb) sheet_names)) files) \<and>
         columns (all_school_data out) = columns (all_school_data acc) \<and>
         rows (all_school_data out) =
           filter (\<lambda>e. cell_at (columns (all_school_data acc)) e (str ''grade_low'') \<noteq> NaN)
             (rows (all_school_data acc)) \<and>
         columns (all_calpads_data out) = columns (all_calpads_data acc) \<and>
         rows (all_calpads_data out) =
           filter (\<lambda>r. cell_at (columns (all_calpads_data acc)) r (str ''school_code'') \<in>
                        (\<lambda>e. cell_at (columns (all_school_data acc)) e (str ''school_code'')) `
                          set (filter (\<lambda>e. cell_at (columns (all_school_data acc)) e
                                              (str ''grade_low'') \<noteq> NaN)
                                 (rows (all_school_data acc))))
             (rows (all_calpads_data acc)) \<and>
         (\<forall>r. count_list (rows (all_calpads_data out)) r =
              (if cell_at (columns (all_calpads_data acc)) r (str ''school_code'') \<in>
                    (\<lambda>e. cell_at (columns (all_school_data acc)) e (str ''school_code'')) `
                      set (filter (\<lambda>e. cell_at (columns (all_school_data acc)) e
                                          (str ''grade_low'') \<noteq> NaN)
                             (rows (all_school_data acc)))
               then count_list (rows (all_calpads_data acc)) r else 0))"
proof -
  let ?init = "\<lparr>all_school_data = DataFrame, all_calpads_data = DataFrame\<rparr>"
  from files_loop_ok[OF assms(2) tables_ok_init] have ok: "tables_ok acc" .
  define graded where
    "graded = filter (\<lambda>e. cell_at (columns (all_school_data acc)) e (str ''grade_low'') \<noteq> NaN)
                (rows (all_school_data acc))"
  define P where "P = (\<lambda>l. cell_at (columns (all_calpads_data acc)) l (str ''school_code'') \<in>
                               (\<lambda>e. cell_at (columns (all_school_data acc)) e (str ''school_code'')) `
                                 set graded)"
  from post_pass_Inr[OF ok assms(3)]
  have s: "all_school_data out = (all_school_data acc)\<lparr>rows := graded\<rparr>"
    and m0: "all_calpads_data out =
           \<lparr>columns = columns (all_calpads_data acc),
            rows = filter (\<lambda>l. cell_at (columns (all_calpads_data acc)) l (str ''school_code'') \<in>
                               (\<lambda>e. cell_at (columns (all_school_data acc)) e (str ''school_code'')) `
                                 set (rows (all_school_data out)))
                     (rows (all_calpads_data acc))\<rparr>"
    unfolding graded_def by blast+
  from s have cs: "columns (all_school_data out) = columns (all_school_data acc)"
    and rs: "rows (all_school_data out) = graded"
    by simp_all
  from m0 have cm: "columns (all_calpads_data out) = columns (all_calpads_data acc)"
    and rm: "rows (all_calpads_data out) = filter P (rows (all_calpads_data acc))"
    unfolding P_def rs by simp_all
  have 0: "aggregate files = Inr out"
    using assms(2,3) by (auto simp: aggregate_Inr)
  have "\<forall>r \<in> set (rows (all_calpads_data ?init)).
          \<exists>n \<in> set sheet_names.
            cell_at (columns (all_calpads_data ?init)) r (str ''source_sheet'') = Str n"
    by (simp add: DataFrame_def)
  from files_loop_all_tagged[OF assms(2) assms(1) this]
  have 1: "\<forall>r \<in> set (rows (all_calpads_data acc)).
            \<exists>n \<in> set sheet_names.
              cell_at (columns (all_calpads_data acc)) r (str ''source_sheet'') = Str n" .
  have 2: "\<forall>n \<in> set sheet_names.
            length (tagged n (all_calpads_data acc)) =
            sum_list (map (\<lambda>wb. loaded_rows wb n) files)"
  proof
    fix n
    assume "n \<in> set sheet_names"
    from files_loop_tagged[OF assms(2) assms(1) this]
    show "length (tagged n (all_calpads_data acc)) = sum_list (map (\<lambda>wb. loaded_rows wb n) files)"
      by (simp add: tagged_def DataFrame_def)
  qed
  from files_loop_length[OF assms(2)]
  have 3: "length (rows (all_calpads_data acc)) =
           sum_list (map (\<lambda>wb. sum_list (map (loaded_rows wb) sheet_names)) files)"
    by (simp add: DataFrame_def)
  have 4: "\<forall>r. count_list (rows (all_calpads_data out)) r =
              (if P r then count_list (rows (all_calpads_data acc)) r else 0)"
    unfolding rm by (simp add: count_list_filter)
  from 0 1 2 3 4 cs rs cm rm show ?thesis unfolding P_def graded_def by blast
qed

theorem metric_rows_not_deduplicated_witness:
  "rectangular_files [example_workbook, example_workbook] \<and>
   read_excel example_workbook (str ''LEA-Level CALPADS UPC Data'') = Inr example_lea_sheet \<and>
   process_sheet \<lparr>all_school_data = DataFrame, all_calpads_data = DataFrame\<rparr>
       (str ''LEA-Level CALPADS UPC Data'') example_lea_sheet =
     Inr \<lparr>all_school_data = \<lparr>columns = [], rows = [[]]\<rparr>,
          all_calpads_data =
            \<lparr>columns = [str ''academic_year'', str ''enrollment'', str ''source_sheet''],
             rows = [[Str (str ''2021-2022''), Num 50000,
                      Str (str ''LEA-Level CALPADS UPC Data'')]]\<rparr>\<rparr> \<and>
   files_loop [example_workbook, example_workbook]
       \<lparr>all_school_data = DataFrame, all_calpads_data = DataFrame\<rparr> =
     Inr example_accumulated \<and>
   post_pass example_accumulated = Inr example_output \<and>
   loaded_rows example_workbook (str ''School-Level CALPADS UPC Data'') = 2 \<and>
   length (tagged (str ''School-Level CALPADS UPC Data'') (all_calpads_data example_accumulated)) = 4 \<and>
   length (rows (all_calpads_data example_accumulated)) = 6 \<and>
   rows (all_school_data example_output) = [[Num 101, Str (str ''K'')]] \<and>
   count_list (rows (all_calpads_data example_accumulated))
     [Str (str ''2021-2022''), Num 300, Str (str ''School-Level CALPADS UPC Data''), Num 101] = 2 \<and>
   count_list (rows (all_calpads_data example_output))
     [Str (str ''2021-2022''), Num 300, Str (str ''School-Level CALPADS UPC Data''), Num 101] = 2 \<and>
   count_list (rows (all_calpads_data example_accumulated))
     [Str (str ''2021-2022''), Num 10, Str (str ''School-Level CALPADS UPC Data''), Num 102] = 2 \<and>
   count_list (rows (all_calpads_data example_output))
     [Str (str ''2021-2022''), Num 10, Str (str ''School-Level CALPADS UPC Data''), Num 102] = 0"
proof -
  let ?a = "[Str (str ''2021-2022''), Num 300, Str (str ''School-Level CALPADS UPC Data''), Num 101]"
  let ?b = "[Str (str ''2021-2022''), Num 10, Str (str ''School-Level CALPADS UPC Data''), Num 102]"
  let ?graded = "filter (\<lambda>e. cell_at (columns (all_school_data example_accumulated)) e
                               (str ''grade_low'') \<noteq> NaN)
                   (rows (all_school_data example_accumulated))"
  have w: "rectangular_files [example_workbook, example_workbook]"
    by (simp add: rectangular_files_def example_workbook_def rectangular_def)
  have re: "read_excel example_workbook (str ''LEA-Level CALPADS UPC Data'') = Inr example_lea_sheet"
    by (simp add: read_excel_def example_workbook_def example_lea_sheet_def str_def)
  have ps: "process_sheet \<lparr>all_school_data = DataFrame, all_calpads_data = DataFrame\<rparr>
       (str ''LEA-Level CALPADS UPC Data'') example_lea_sheet =
     Inr \<lparr>all_school_data = \<lparr>columns = [], rows = [[]]\<rparr>,
          all_calpads_data =
            \<lparr>columns = [str ''academic_year'', str ''enrollment'', str ''source_sheet''],
             rows = [[Str (str ''2021-2022''), Num 50000,
                      Str (str ''LEA-Level CALPADS UPC Data'')]]\<rparr>\<rparr>"
    by (simp add: example_lea_sheet_def process_sheet_def load_sheet_def project_def getitem_def
        rename_def pd_concat_def drop_duplicates_def assign_def school_data_cols_def
        calpads_data_cols_def DataFrame_def reindex_def cell_at_def str_def is_space_def Let_def)
  have n: "str ''School-Level CALPADS UPC Data'' \<in> set sheet_names"
    by (simp add: sheet_names_def)
  have lr: "loaded_rows example_workbook (str ''School-Level CALPADS UPC Data'') = 2"
    by (simp add: loaded_rows_def read_excel_def example_workbook_def load_sheet_def
        cell_at_def str_def is_space_def)
  have g: "?graded = [[Num 101, Str (str ''K'')]]"
    by (simp add: example_accumulated_def cell_at_def str_def)
  have ca: "count_list (rows (all_calpads_data example_accumulated)) ?a = 2"
    and cb: "count_list (rows (all_calpads_data example_accumulated)) ?b = 2"
    by (simp_all add: example_accumulated_def str_def)
  have pa: "cell_at (columns (all_calpads_data example_accumulated)) ?a (str ''school_code'') \<in>
             (\<lambda>e. cell_at (columns (all_school_data example_accumulated)) e (str ''school_code'')) `
               set ?graded"
    and pb: "cell_at (columns (all_calpads_data example_accumulated)) ?b (str ''school_code'') \<notin>
             (\<lambda>e. cell_at (columns (all_school_data example_accumulated)) e (str ''school_code'')) `
               set ?graded"
    unfolding g by (simp_all add: example_accumulated_def cell_at_def str_def)
  from metric_rows_not_deduplicated[OF w example_loop example_post]
  have t: "\<forall>n \<in> set sheet_names.
            length (tagged n (all_calpads_data example_accumulated)) =
            sum_list (map (\<lambda>wb. loaded_rows wb n) [example_workbook, example_workbook])"
    and len: "length (rows (all_calpads_data example_accumulated)) =
           sum_list (map (\<lambda>wb. sum_list (map (loaded_rows wb) sheet_names))
                       [example_workbook, example_workbook])"
    and rs: "rows (all_school_data example_output) = ?graded"
    and c: "\<forall>r. count_list (rows (all_calpads_data example_output)) r =
              (if cell_at (columns (all_calpads_data example_accumulated)) r (str ''school_code'') \<in>
                    (\<lambda>e. cell_at (columns (all_school_data example_accumulated)) e (str ''school_code'')) `
                      set ?graded
               then count_list (rows (all_calpads_data example_accumulated)) r else 0)"
    by blast+
  from t n lr
  have 1: "length (tagged (str ''School-Level CALPADS UPC Data'')
                     (all_calpads_data example_accumulated)) = 4"
    by simp
  have 2: "length (rows (all_calpads_data example_accumulated)) = 6"
    by (simp add: example_accumulated_def)
  from c pa ca have 3: "count_list (rows (all_calpads_data example_output)) ?a = 2" by simp
  from c pb have 4: "count_list (rows (all_calpads_data example_output)) ?b = 0" by simp
  from rs g have 5: "rows (all_school_data example_output) = [[Num 101, Str (str ''K'')]]" by simp
  from w re ps example_loop example_post lr 1 2 3 4 5 ca cb show ?thesis by blast
qed

end
